theory Spec2Isabelle
  imports Main "HOL-Library.Sublist"
begin

section \<open>The property tree of bpdoc\<close>

text \<open>
  The file \<^verbatim>\<open>bootstrap/bpdoc/properties.go\<close> holds the operations on the documentation
  tree of a Blueprint property struct: a \<^verbatim>\<open>PropertyStruct\<close> for a documented type, with a
  \<^verbatim>\<open>Property\<close> for each field, which has a \<^verbatim>\<open>Property\<close> for each field of its own.

  A slice is modelled by the list of its elements where an operation only reads it or builds
  a new one (\<^verbatim>\<open>Equal\<close>, \<^verbatim>\<open>Nest\<close>, \<^verbatim>\<open>GetByName\<close>, the construction of the tree). The operations
  that write into the elements of a slice (\<^verbatim>\<open>filterPropsByTag\<close>, \<^verbatim>\<open>setDefaults\<close>) and \<^verbatim>\<open>Clone\<close> are
  modelled on a store that keeps backing arrays apart from slice headers.
\<close>

text \<open>
  Modelled from the spec: the declarations of the structs \<^verbatim>\<open>Property\<close> and \<^verbatim>\<open>PropertyStruct\<close>,
  which are in another file of the package. The fields are those of section 3 of the
  specification, each with the type at which \<^verbatim>\<open>properties.go\<close> uses it: \<^verbatim>\<open>OtherNames\<close> is a
  \<^verbatim>\<open>[]string\<close> and \<^verbatim>\<open>OtherTexts\<close> a \<^verbatim>\<open>[]template.HTML\<close> (the arguments of \<^verbatim>\<open>stringArrayEqual\<close>
  and \<^verbatim>\<open>htmlArrayEqual\<close>), \<^verbatim>\<open>Tag\<close> a \<^verbatim>\<open>reflect.StructTag\<close>, \<^verbatim>\<open>Text\<close> a \<^verbatim>\<open>template.HTML\<close>,
  \<^verbatim>\<open>Properties\<close> a \<^verbatim>\<open>[]Property\<close>, \<^verbatim>\<open>Anonymous\<close> a \<^verbatim>\<open>bool\<close> and the others strings.
  \<^verbatim>\<open>reflect.StructTag\<close> and \<^verbatim>\<open>template.HTML\<close> are string types.
\<close>

datatype property = Property
  (Name: string)
  (OtherNames: "string list")
  (Type: string)
  (Tag: string)
  (Text: string)
  (OtherTexts: "string list")
  (Properties: "property list")
  (Default: string)
  (Anonymous: bool)

record propertyStruct =
  ps_Name :: string
  ps_Text :: string
  ps_Properties :: "property list"

subsection \<open>Equal\<close>

text \<open>
  \<^verbatim>\<open>stringArrayEqual\<close> and \<^verbatim>\<open>htmlArrayEqual\<close> compare the lengths first and then walk the
  indices of \<^verbatim>\<open>a\<close>, returning false at the first index where the elements differ.
\<close>

fun arrayEqualLoop :: "string list \<Rightarrow> string list \<Rightarrow> bool" where
  "arrayEqualLoop (x # a) (y # b) = (if x \<noteq> y then False else arrayEqualLoop a b)"
| "arrayEqualLoop _ _ = True"

definition stringArrayEqual :: "string list \<Rightarrow> string list \<Rightarrow> bool" where
  "stringArrayEqual a b = (if length a \<noteq> length b then False else arrayEqualLoop a b)"

definition htmlArrayEqual :: "string list \<Rightarrow> string list \<Rightarrow> bool" where
  "htmlArrayEqual a b = (if length a \<noteq> length b then False else arrayEqualLoop a b)"

text \<open>
  \<^verbatim>\<open>Equal\<close> and \<^verbatim>\<open>SameSubProperties\<close> call each other; \<open>sameSubLoop\<close> is the index loop of
  \<^verbatim>\<open>SameSubProperties\<close>, entered only with slices of one length.
\<close>

fun Equal :: "property \<Rightarrow> property \<Rightarrow> bool"
  and SameSubProperties :: "property \<Rightarrow> property \<Rightarrow> bool"
  and sameSubLoop :: "property list \<Rightarrow> property list \<Rightarrow> bool"
where
  "Equal (Property n ons ty tg tx ots ps d an) other =
     (n = Name other \<and> ty = Type other \<and> tg = Tag other \<and>
      tx = Text other \<and> d = Default other \<and>
      stringArrayEqual ons (OtherNames other) \<and>
      htmlArrayEqual ots (OtherTexts other) \<and>
      SameSubProperties (Property n ons ty tg tx ots ps d an) other)"
| "SameSubProperties (Property n ons ty tg tx ots ps d an) other =
     (if length ps \<noteq> length (Properties other) then False
      else sameSubLoop ps (Properties other))"
| "sameSubLoop (x # xs) (y # ys) = (if \<not> Equal x y then False else sameSubLoop xs ys)"
| "sameSubLoop _ _ = True"

subsection \<open>Nest\<close>

text \<open>
  \<^verbatim>\<open>nestUnique\<close> copies \<^verbatim>\<open>src\<close> into a fresh slice \<^verbatim>\<open>ret\<close> and then walks \<^verbatim>\<open>target\<close>. The inner
  loop looks for an element of \<^verbatim>\<open>ret\<close> that \<^verbatim>\<open>elem\<close> is \<^verbatim>\<open>Equal\<close> to and breaks at the first.
\<close>

fun isUnique :: "property \<Rightarrow> property list \<Rightarrow> bool" where
  "isUnique elem [] = True"
| "isUnique elem (retElement # ret) =
     (if Equal elem retElement then False else isUnique elem ret)"

fun nestLoop :: "property list \<Rightarrow> property list \<Rightarrow> property list" where
  "nestLoop ret [] = ret"
| "nestLoop ret (elem # target) =
     nestLoop (if isUnique elem ret then ret @ [elem] else ret) target"

definition nestUnique :: "property list \<Rightarrow> property list \<Rightarrow> property list" where
  "nestUnique src target = nestLoop ([] @ src) target"

definition Nest :: "propertyStruct \<Rightarrow> propertyStruct \<Rightarrow> propertyStruct" where
  "Nest ps nested =
     ps\<lparr>ps_Properties := nestUnique (ps_Properties ps) (ps_Properties nested)\<rparr>"

subsection \<open>Filtering by tag\<close>

text \<open>
  \<^verbatim>\<open>strings.Split(s, sep)\<close> for a separator of one byte: the pieces of \<open>s\<close> between the
  occurrences of the separator, one more piece than there are occurrences.
\<close>

fun Split :: "string \<Rightarrow> char \<Rightarrow> string list" where
  "Split [] sep = [[]]"
| "Split (c # s) sep =
     (if c = sep then [] # Split s sep
      else (case Split s sep of [] \<Rightarrow> [[c]] | w # ws \<Rightarrow> (c # w) # ws))"

text \<open>
  \<^verbatim>\<open>hasTag\<close> walks the entries of \<^verbatim>\<open>strings.Split(tag.Get(key), ",")\<close>.
  \<^verbatim>\<open>reflect.StructTag.Get\<close> belongs to the Go library; it is the parameter \<open>Get\<close>, from a tag
  and a key to the value stored under the key, the empty string when the tag has no entry
  for the key.
\<close>

type_synonym tagGet = "string \<Rightarrow> string \<Rightarrow> string"

fun hasTagLoop :: "string list \<Rightarrow> string \<Rightarrow> bool" where
  "hasTagLoop [] v = False"
| "hasTagLoop (entry # entries) v = (if entry = v then True else hasTagLoop entries v)"

definition hasTag :: "tagGet \<Rightarrow> string \<Rightarrow> string \<Rightarrow> string \<Rightarrow> bool" where
  "hasTag Get tag key v = hasTagLoop (Split (Get tag key) (CHR '','')) v"

subsection \<open>Lookup by dotted name\<close>




text \<open>\<^verbatim>\<open>SetAnonymous\<close> sets the flag of the property it is called on.\<close>

fun SetAnonymous :: "property \<Rightarrow> property" where
  "SetAnonymous (Property n ons ty tg tx ots ps d an) = Property n ons ty tg tx ots ps d True"

subsection \<open>Formatting of doc comments\<close>

text \<open>
  Strings are byte strings. \<^verbatim>\<open>utf8.DecodeRuneInString\<close> and \<^verbatim>\<open>unicode.IsSpace\<close> belong to the Go
  library; of the first only the rune is used. A rune is its code point; \<open>RuneError\<close> is
  U+FFFD, the result for the empty string and for a first byte sequence that is not UTF-8.
  The second byte of a sequence has to lie in a range that depends on the first byte; every
  later byte lies between 0x80 and 0xBF.
\<close>

abbreviation nl :: char where
  "nl \<equiv> CHR 0x0A"

definition RuneError :: nat where
  "RuneError = 0xFFFD"

definition acceptLo :: "nat \<Rightarrow> nat" where
  "acceptLo s0 = (if s0 = 0xE0 then 0xA0 else if s0 = 0xF0 then 0x90 else 0x80)"

definition acceptHi :: "nat \<Rightarrow> nat" where
  "acceptHi s0 = (if s0 = 0xED then 0x9F else if s0 = 0xF4 then 0x8F else 0xBF)"

definition continuation :: "nat \<Rightarrow> bool" where
  "continuation b = (0x80 \<le> b \<and> b \<le> 0xBF)"

fun DecodeRuneInString :: "string \<Rightarrow> nat" where
  "DecodeRuneInString [] = RuneError"
| "DecodeRuneInString (c0 # s) =
     (let s0 = of_char c0 in
      if s0 < 0x80 then s0
      else if s0 < 0xC2 \<or> 0xF4 < s0 then RuneError
      else (case s of
          [] \<Rightarrow> RuneError
        | c1 # t \<Rightarrow>
            (let s1 = of_char c1 in
             if s1 < acceptLo s0 \<or> acceptHi s0 < s1 then RuneError
             else if s0 < 0xE0 then (s0 mod 0x20) * 0x40 + s1 mod 0x40
             else (case t of
                 [] \<Rightarrow> RuneError
               | c2 # u \<Rightarrow>
                   (let s2 = of_char c2 in
                    if \<not> continuation s2 then RuneError
                    else if s0 < 0xF0
                      then (s0 mod 0x10) * 0x1000 + (s1 mod 0x40) * 0x40 + s2 mod 0x40
                    else (case u of
                        [] \<Rightarrow> RuneError
                      | c3 # _ \<Rightarrow>
                          (let s3 = of_char c3 in
                           if \<not> continuation s3 then RuneError
                           else (s0 mod 0x08) * 0x40000 + (s1 mod 0x40) * 0x1000
                                  + (s2 mod 0x40) * 0x40 + s3 mod 0x40)))))))"

definition IsSpace :: "nat \<Rightarrow> bool" where
  "IsSpace r =
     (if r \<le> 0xFF
      then r = 0x09 \<or> r = 0x0A \<or> r = 0x0B \<or> r = 0x0C \<or> r = 0x0D \<or> r = 0x20 \<or>
           r = 0x85 \<or> r = 0xA0
      else r = 0x1680 \<or> (0x2000 \<le> r \<and> r \<le> 0x200A) \<or> r = 0x2028 \<or> r = 0x2029 \<or>
           r = 0x202F \<or> r = 0x205F \<or> r = 0x3000)"

text \<open>
  \<^verbatim>\<open>template.HTMLEscapeString\<close>, of the Go library as well, replaces the bytes \<^verbatim>\<open>"\<close>, \<^verbatim>\<open>'\<close>, \<^verbatim>\<open>&\<close>,
  \<^verbatim>\<open><\<close>, \<^verbatim>\<open>>\<close> by their entities and the zero byte by U+FFFD.
\<close>

definition escapeByte :: "char \<Rightarrow> string" where
  "escapeByte c =
     (if c = CHR 0x00 then [CHR 0xEF, CHR 0xBF, CHR 0xBD]
      else if c = CHR 0x22 then ''&#34;''
      else if c = CHR 0x27 then ''&#39;''
      else if c = CHR ''&'' then ''&amp;''
      else if c = CHR ''<'' then ''&lt;''
      else if c = CHR ''>'' then ''&gt;''
      else [c])"

definition HTMLEscapeString :: "string \<Rightarrow> string" where
  "HTMLEscapeString s = concat (map escapeByte s)"

text \<open>
  \<^verbatim>\<open>formatText\<close>: \<open>formatLoop\<close> is the loop over the lines, from the markup and the flag
  \<^verbatim>\<open>preformatted\<close> before a line to those after the last.
\<close>

fun formatLoop :: "string list \<Rightarrow> string \<Rightarrow> bool \<Rightarrow> string \<times> bool" where
  "formatLoop [] html preformatted = (html, preformatted)"
| "formatLoop (line # lines) html preformatted =
     (let r = DecodeRuneInString line;
          indent = IsSpace r
      in if indent \<and> \<not> preformatted
         then formatLoop lines
                ((html @ ''<pre>'' @ [nl, nl]) @ HTMLEscapeString line @ [nl]) True
         else if \<not> indent \<and> line \<noteq> [] \<and> preformatted
         then formatLoop lines
                ((html @ ''</pre>'' @ [nl]) @ HTMLEscapeString line @ [nl]) False
         else formatLoop lines (html @ HTMLEscapeString line @ [nl]) preformatted)"

definition formatText :: "string \<Rightarrow> string" where
  "formatText text =
     (case formatLoop (Split text nl) [] False of
        (html, preformatted) \<Rightarrow> if preformatted then html @ ''</pre>'' @ [nl] else html)"

subsection \<open>Building the tree from a type declaration\<close>

text \<open>
  The type expressions of \<^verbatim>\<open>go/ast\<close> that can stand as the type of a struct field, with the
  parts that \<^verbatim>\<open>properties.go\<close> reads: the element of an array or slice type, the fields of a
  struct type, base and index of an index expression, operand and selected name of a
  selector. A field has its names (a \<^verbatim>\<open>nil\<close> identifier is \<open>None\<close>; no names at all for an
  embedded field), its type, the literal of its tag and the text of its doc comment, as
  \<^verbatim>\<open>CommentGroup.Text\<close> returns it, when there are any.
\<close>

datatype expr =
    Ident string
  | StarExpr expr
  | ArrayType expr
  | InterfaceType
  | StructType "field list"
  | IndexExpr expr expr
  | IndexListExpr expr "expr list"
  | SelectorExpr expr string
  | ParenExpr expr
  | MapType expr expr
  | ChanType expr
  | FuncType
and field = Field
  (Names: "string option list")
  (FieldType: expr)
  (FieldTag: "string option")
  (FieldDoc: "string option")

datatype error =
    NotAStruct string
  | TagSyntax string
  | FprintFailed
  | UnknownType string

text \<open>
  What the file takes from elsewhere: \<^verbatim>\<open>proptools.PropertyNameForField\<close>, \<^verbatim>\<open>strconv.Unquote\<close>
  (\<open>None\<close> for a literal that is not a quoted string) and \<^verbatim>\<open>ast.Fprint\<close> into a string builder
  (the dump it writes, \<open>None\<close> when it reports an error).
\<close>

record env =
  PropertyNameForField :: "string \<Rightarrow> string"
  Unquote :: "string \<Rightarrow> string option"
  Fprint :: "expr \<Rightarrow> string option"

text \<open>The verb \<^verbatim>\<open>%T\<close> of \<^verbatim>\<open>fmt\<close>: the Go type of the node.\<close>

fun goTypeName :: "expr \<Rightarrow> string" where
  "goTypeName (Ident _) = ''*ast.Ident''"
| "goTypeName (StarExpr _) = ''*ast.StarExpr''"
| "goTypeName (ArrayType _) = ''*ast.ArrayType''"
| "goTypeName InterfaceType = ''*ast.InterfaceType''"
| "goTypeName (StructType _) = ''*ast.StructType''"
| "goTypeName (IndexExpr _ _) = ''*ast.IndexExpr''"
| "goTypeName (IndexListExpr _ _) = ''*ast.IndexListExpr''"
| "goTypeName (SelectorExpr _ _) = ''*ast.SelectorExpr''"
| "goTypeName (ParenExpr _) = ''*ast.ParenExpr''"
| "goTypeName (MapType _ _) = ''*ast.MapType''"
| "goTypeName (ChanType _) = ''*ast.ChanType''"
| "goTypeName FuncType = ''*ast.FuncType''"

fun isConfigurableAst :: "expr \<Rightarrow> bool" where
  "isConfigurableAst (Ident name) = (name = ''Configurable'')"
| "isConfigurableAst (SelectorExpr (Ident l) sel) =
     (if l = ''proptools'' then (if sel = ''Configurable'' then True else False) else False)"
| "isConfigurableAst _ = False"

text \<open>
  \<^verbatim>\<open>getType\<close> strips one star and hands the rest to its type switch, \<open>typeSwitch\<close> here, which
  keeps the whole expression for the dump and for \<^verbatim>\<open>%T\<close>. \<^verbatim>\<open>structProperties\<close> walks the fields
  and, for each, \<open>fieldProperties\<close> walks the names: the tag is unquoted and the type is
  resolved once for every name. A result \<^verbatim>\<open>(nil, err)\<close> is \<open>Inl err\<close>.
\<close>

definition fieldNames :: "field \<Rightarrow> string option list" where
  "fieldNames f =
     (if Names f = [] then (case FieldType f of Ident t \<Rightarrow> [Some t] | _ \<Rightarrow> [])
      else Names f)"

fun getType :: "env \<Rightarrow> expr \<Rightarrow> error + string \<times> property list"
  and typeSwitch :: "env \<Rightarrow> expr \<Rightarrow> expr \<Rightarrow> error + string \<times> property list"
  and structProperties :: "env \<Rightarrow> field list \<Rightarrow> error + property list"
  and fieldProperties :: "env \<Rightarrow> field \<Rightarrow> string option list \<Rightarrow> error + property list"
where
  "getType E (StarExpr x) = typeSwitch E (StarExpr x) x"
| "getType E e = typeSwitch E e e"
| "typeSwitch E e (ArrayType elt) =
     (case getType E elt of
        Inl err \<Rightarrow> Inl err
      | Inr (elt', innerProps) \<Rightarrow> Inr (''list of '' @ elt', innerProps))"
| "typeSwitch E e InterfaceType = Inr (''interface'', [])"
| "typeSwitch E e (Ident name) = Inr (name, [])"
| "typeSwitch E e (StructType flds) =
     (case structProperties E flds of
        Inl err \<Rightarrow> Inl err
      | Inr innerProps \<Rightarrow> Inr ([], innerProps))"
| "typeSwitch E e (IndexExpr x index) =
     (if \<not> isConfigurableAst x
      then (case Fprint E e of
              None \<Rightarrow> Inl FprintFailed
            | Some dump \<Rightarrow> Inl (UnknownType dump))
      else (case getType E index of
              Inl err \<Rightarrow> Inl err
            | Inr (innerType, innerProps) \<Rightarrow> Inr (''configurable '' @ innerType, innerProps)))"
| "typeSwitch E e _ = Inr (goTypeName e, [])"
| "structProperties E [] = Inr []"
| "structProperties E (f # flds) =
     (case fieldProperties E f (fieldNames f) of
        Inl err \<Rightarrow> Inl err
      | Inr props \<Rightarrow>
          (case structProperties E flds of
             Inl err \<Rightarrow> Inl err
           | Inr rest \<Rightarrow> Inr (props @ rest)))"
| "fieldProperties E f [] = Inr []"
| "fieldProperties E (Field ns ty tg doc) (n # names) =
     (let name = (case n of None \<Rightarrow> [] | Some i \<Rightarrow> PropertyNameForField E i);
          text = (case doc of None \<Rightarrow> [] | Some t \<Rightarrow> t)
      in case (case tg of
                 None \<Rightarrow> Inr []
               | Some lit \<Rightarrow> (case Unquote E lit of
                               None \<Rightarrow> Inl (TagSyntax lit)
                             | Some tag \<Rightarrow> Inr tag)) of
           Inl err \<Rightarrow> Inl err
         | Inr tag \<Rightarrow>
             (case getType E ty of
                Inl err \<Rightarrow> Inl err
              | Inr (typ, innerProps) \<Rightarrow>
                  (case fieldProperties E (Field ns ty tg doc) names of
                     Inl err \<Rightarrow> Inl err
                   | Inr rest \<Rightarrow>
                       Inr (Property name [] typ tag (formatText text) [] innerProps [] False
                              # rest))))"

text \<open>
  \<^verbatim>\<open>newPropertyStruct\<close>, from the name and the doc of the declared type and the type expression
  of its first spec.
\<close>

fun newPropertyStruct :: "env \<Rightarrow> string \<Rightarrow> string \<Rightarrow> expr \<Rightarrow> error + propertyStruct" where
  "newPropertyStruct E name doc (StructType flds) =
     (case structProperties E flds of
        Inl err \<Rightarrow> Inl err
      | Inr props \<Rightarrow> Inr \<lparr>ps_Name = name, ps_Text = doc, ps_Properties = props\<rparr>)"
| "newPropertyStruct E name doc _ = Inl (NotAStruct name)"

section \<open>The store\<close>

text \<open>
  The operations that write into the elements of a slice, or whose contract is about what
  a copy shares with its original, are modelled on a store. A slice is a header, the
  address of its backing array and its length, and the arrays live in the store: those of
  \<^verbatim>\<open>[]string\<close> and \<^verbatim>\<open>[]template.HTML\<close> in \<open>stringArrays\<close>, those of \<^verbatim>\<open>[]Property\<close> in
  \<open>propertyArrays\<close>. Address 0 is the \<^verbatim>\<open>nil\<close> slice; \<open>nextAddr\<close> is the next address that an
  allocation returns. Two headers with one address share their elements, as the elements
  that \<^verbatim>\<open>nestUnique\<close> copies from one slice into another do with their \<^verbatim>\<open>Properties\<close>.
\<close>

record slice =
  slBase :: nat
  slLen :: nat

record hproperty =
  hName :: string
  hOtherNames :: slice
  hType :: string
  hTag :: string
  hText :: string
  hOtherTexts :: slice
  hProperties :: slice
  hDefault :: string
  hAnonymous :: bool

record hpropertyStruct =
  hsName :: string
  hsText :: string
  hsProperties :: slice

record store =
  stringArrays :: "nat \<Rightarrow> string list"
  propertyArrays :: "nat \<Rightarrow> hproperty list"
  nextAddr :: nat

text \<open>The assignment \<^verbatim>\<open>s[i] = v\<close> to an element of a slice of properties.\<close>

definition setProperty :: "store \<Rightarrow> slice \<Rightarrow> nat \<Rightarrow> hproperty \<Rightarrow> store" where
  "setProperty h s i v =
     h\<lparr>propertyArrays := (propertyArrays h)(slBase s := (propertyArrays h (slBase s))[i := v])\<rparr>"

subsection \<open>Filtering by tag, in place\<close>

text \<open>
  \<^verbatim>\<open>filterPropsByTag\<close> compacts a slice in place: \<^verbatim>\<open>filtered := (*props)[:0]\<close> shares the
  backing array of \<^verbatim>\<open>*props\<close>, and each \<^verbatim>\<open>append\<close> writes the kept element, with the header
  of its filtered children, at the next index \<open>j\<close> of that array, never beyond the index
  \<open>i\<close> being read, so that \<^verbatim>\<open>append\<close> never allocates. The \<^verbatim>\<open>range\<close> loop fixes the header of
  \<^verbatim>\<open>*props\<close> when it starts and copies element \<open>i\<close> out of the array when it reaches it,
  hence from the store as the calls before have left it. The nested call works on the
  copy \<open>x\<close>, whose header is the result \<open>sub\<close>; the final \<^verbatim>\<open>*props = filtered\<close> is the header
  that the function returns here, which the caller stores.

  The recursion follows the headers found in the store, where nothing prevents a cycle of
  arrays, on which the Go code recurses until the stack is exhausted. The depth of the
  calls is therefore bounded by a parameter, and \<open>None\<close> is the run that exceeds the bound.

  \<open>elems\<close> are the elements of a slice; in Go a header is never longer than its array.
\<close>

definition elems :: "store \<Rightarrow> slice \<Rightarrow> hproperty list" where
  "elems h s = take (slLen s) (propertyArrays h (slBase s))"

function filterPropsByTag ::
    "tagGet \<Rightarrow> nat \<Rightarrow> store \<Rightarrow> slice \<Rightarrow> string \<Rightarrow> string \<Rightarrow> bool \<Rightarrow> (store \<times> slice) option"
  and filterLoop ::
    "tagGet \<Rightarrow> nat \<Rightarrow> store \<Rightarrow> slice \<Rightarrow> nat \<Rightarrow> nat \<Rightarrow> string \<Rightarrow> string \<Rightarrow> bool \<Rightarrow>
       (store \<times> slice) option"
where
  "filterPropsByTag Get 0 h props key v exclude = None"
| "filterPropsByTag Get (Suc depth) h props key v exclude =
     filterLoop Get depth h props 0 0 key v exclude"
| "filterLoop Get depth h props i j key v exclude =
     (if i < length (elems h props)
      then (let x = elems h props ! i in
            if hasTag Get (hTag x) key v = (\<not> exclude)
            then (case filterPropsByTag Get depth h (hProperties x) key v exclude of
                    None \<Rightarrow> None
                  | Some (h1, sub) \<Rightarrow>
                      filterLoop Get depth (setProperty h1 props j (x\<lparr>hProperties := sub\<rparr>))
                        props (Suc i) (Suc j) key v exclude)
            else filterLoop Get depth h props (Suc i) j key v exclude)
      else Some (h, \<lparr>slBase = slBase props, slLen = j\<rparr>))"
  by pat_completeness auto
termination
  by (relation "measures
        [\<lambda>x. case x of Inl (Get, depth, h, props, key, v, exclude) \<Rightarrow> 2 * depth
                     | Inr (Get, depth, h, props, i, j, key, v, exclude) \<Rightarrow> 2 * depth + 1,
         \<lambda>x. case x of Inl _ \<Rightarrow> 0
                     | Inr (Get, depth, h, props, i, j, key, v, exclude) \<Rightarrow> slLen props - i]")
    (auto simp: elems_def)

declare filterLoop.simps [simp del]

definition ExcludeByTag ::
  "tagGet \<Rightarrow> nat \<Rightarrow> store \<Rightarrow> hpropertyStruct \<Rightarrow> string \<Rightarrow> string \<Rightarrow>
     (store \<times> hpropertyStruct) option" where
  "ExcludeByTag Get depth h ps key v =
     (case filterPropsByTag Get depth h (hsProperties ps) key v True of
        None \<Rightarrow> None
      | Some (h', s) \<Rightarrow> Some (h', ps\<lparr>hsProperties := s\<rparr>))"

definition IncludeByTag ::
  "tagGet \<Rightarrow> nat \<Rightarrow> store \<Rightarrow> hpropertyStruct \<Rightarrow> string \<Rightarrow> string \<Rightarrow>
     (store \<times> hpropertyStruct) option" where
  "IncludeByTag Get depth h ps key v =
     (case filterPropsByTag Get depth h (hsProperties ps) key v False of
        None \<Rightarrow> None
      | Some (h', s) \<Rightarrow> Some (h', ps\<lparr>hsProperties := s\<rparr>))"

section \<open>Properties of Equal\<close>

lemma arrayEqualLoop_iff: "length a = length b \<Longrightarrow> arrayEqualLoop a b \<longleftrightarrow> a = b"
  by (induction a b rule: list_induct2) auto

lemma stringArrayEqual_iff: "stringArrayEqual a b \<longleftrightarrow> a = b"
  by (auto simp: stringArrayEqual_def arrayEqualLoop_iff)

lemma htmlArrayEqual_iff: "htmlArrayEqual a b \<longleftrightarrow> a = b"
  by (auto simp: htmlArrayEqual_def arrayEqualLoop_iff)

lemma sameSubLoop_iff:
  "length xs = length ys \<Longrightarrow> sameSubLoop xs ys \<longleftrightarrow> list_all2 Equal xs ys"
  by (induction xs ys rule: list_induct2) auto

lemma SameSubProperties_iff:
  "SameSubProperties p other \<longleftrightarrow> list_all2 Equal (Properties p) (Properties other)"
  by (cases p) (auto simp: sameSubLoop_iff dest: list_all2_lengthD)

lemma Equal_iff:
  "Equal p other \<longleftrightarrow>
     Name p = Name other \<and> Type p = Type other \<and> Tag p = Tag other \<and>
     Text p = Text other \<and> Default p = Default other \<and>
     OtherNames p = OtherNames other \<and> OtherTexts p = OtherTexts other \<and>
     list_all2 Equal (Properties p) (Properties other)"
  using SameSubProperties_iff [of p other]
  by (cases p) (simp add: stringArrayEqual_iff htmlArrayEqual_iff del: SameSubProperties.simps)

declare Equal.simps [simp del] SameSubProperties.simps [simp del]

text \<open>
  \<open>forget\<close> clears the \<^verbatim>\<open>Anonymous\<close> flag of a node and of every node below it. Two nodes
  are \<^verbatim>\<open>Equal\<close> exactly when they agree after that, which makes \<^verbatim>\<open>Equal\<close> an equivalence.
\<close>

fun forget :: "property \<Rightarrow> property" where
  "forget (Property n ons ty tg tx ots ps d an) =
     Property n ons ty tg tx ots (map forget ps) d False"

lemma Equal_forget: "Equal p q \<longleftrightarrow> forget p = forget q"
proof (induction p arbitrary: q)
  case (Property n ons ty tg tx ots ps d an)
  obtain n' ons' ty' tg' tx' ots' ps' d' an' where q: "q = Property n' ons' ty' tg' tx' ots' ps' d' an'"
    by (cases q)
  have "list_all2 Equal ps ps' \<longleftrightarrow> map forget ps = map forget ps'"
    using Property.IH
  proof (induction ps arbitrary: ps')
    case Nil
    then show ?case by auto
  next
    case (Cons x xs)
    then show ?case by (cases ps') auto
  qed
  then show ?case
    unfolding q by (subst Equal_iff) auto
qed

lemma Equal_refl: "Equal p p"
  by (simp add: Equal_forget)

lemma Equal_sym: "Equal p q \<Longrightarrow> Equal q p"
  by (simp add: Equal_forget)

lemma Equal_trans: "Equal p q \<Longrightarrow> Equal q r \<Longrightarrow> Equal p r"
  by (simp add: Equal_forget)

subsection \<open>Example nodes\<close>

definition leafA :: property where
  "leafA = Property ''a'' [] ''string'' [] [] [] [] [] False"

definition leafB :: property where
  "leafB = Property ''b'' [] ''bool'' [] [] [] [] [] False"

definition leafX :: property where
  "leafX = Property ''x'' [] ''int'' [] [] [] [] [] False"

definition groupA :: "property list \<Rightarrow> property" where
  "groupA ps = Property ''a'' [] [] [] [] [] ps [] False"

text \<open>
  C4, as stated: \<^verbatim>\<open>Equal(a, b)\<close> holds only if all the listed fields agree, the
  \<^verbatim>\<open>Anonymous\<close> flag among them. The code never reads \<^verbatim>\<open>Anonymous\<close> in \<^verbatim>\<open>Equal\<close>: a node and
  its copy marked anonymous are \<^verbatim>\<open>Equal\<close>.
\<close>

theorem Equal_Anonymous_counterexample:
  "\<not> (Equal leafA (SetAnonymous leafA) \<longrightarrow> Anonymous leafA = Anonymous (SetAnonymous leafA))"
  by (simp add: Equal_iff leafA_def)

text \<open>
  C4, amended: \<^verbatim>\<open>Equal(a, b)\<close> holds only if (and in fact exactly when) \<^verbatim>\<open>Name\<close>, \<^verbatim>\<open>Type\<close>,
  \<^verbatim>\<open>Tag\<close>, \<^verbatim>\<open>Text\<close>, \<^verbatim>\<open>Default\<close>, \<^verbatim>\<open>OtherNames\<close> and \<^verbatim>\<open>OtherTexts\<close> agree, the two
  \<^verbatim>\<open>Properties\<close> slices have one length and their elements are \<^verbatim>\<open>Equal\<close> index by index.
  The \<^verbatim>\<open>Anonymous\<close> flag is not compared, at any depth.
\<close>

theorem Equal_fields:
  "Equal a b \<longleftrightarrow>
     Name a = Name b \<and> Type a = Type b \<and> Tag a = Tag b \<and> Text a = Text b \<and>
     Default a = Default b \<and> OtherNames a = OtherNames b \<and> OtherTexts a = OtherTexts b \<and>
     length (Properties a) = length (Properties b) \<and>
     (\<forall>i < length (Properties a). Equal (Properties a ! i) (Properties b ! i))"
  by (subst Equal_iff) (auto simp: list_all2_conv_all_nth)

theorem Equal_fields_witness:
  "Equal (groupA [leafB, leafX]) (SetAnonymous (groupA [SetAnonymous leafB, leafX])) \<and>
   \<not> Equal (groupA [leafB, leafX]) (groupA [leafX, leafB])"
proof -
  have 1: "Equal leafB (SetAnonymous leafB)"
    using Equal_fields [of leafB "SetAnonymous leafB"]
    by (simp add: leafB_def)
  have 2: "Equal leafX leafX"
    using Equal_fields [of leafX leafX] by (simp add: leafX_def)
  have 3: "\<not> Equal leafB leafX"
    using Equal_fields [of leafB leafX] by (simp add: leafB_def leafX_def)
  have "Equal (groupA [leafB, leafX]) (SetAnonymous (groupA [SetAnonymous leafB, leafX]))"
    using 1 2
      Equal_fields [of "groupA [leafB, leafX]" "SetAnonymous (groupA [SetAnonymous leafB, leafX])"]
    by (simp add: groupA_def All_less_Suc2 numeral_2_eq_2)
  moreover have "\<not> Equal (groupA [leafB, leafX]) (groupA [leafX, leafB])"
    using 3 Equal_fields [of "groupA [leafB, leafX]" "groupA [leafX, leafB]"]
    by (simp add: groupA_def All_less_Suc2 numeral_2_eq_2)
  ultimately show ?thesis by simp
qed

section \<open>Properties of nestUnique\<close>

text \<open>
  The merge as the specification words it: the nodes of \<open>bs\<close> that are not \<^verbatim>\<open>Equal\<close> to any
  node already present, in the order of \<open>bs\<close>. In \<open>newNodes\<close> the nodes present are those of
  the result so far: a node that is taken is present from then on. In \<open>firstOccurrences\<close>
  they are the nodes met so far, taken or not: those of the first list and the earlier ones
  of \<open>bs\<close>. The two agree, since \<^verbatim>\<open>Equal\<close> is an equivalence.
\<close>

fun newNodes :: "property list \<Rightarrow> property list \<Rightarrow> property list" where
  "newNodes present [] = []"
| "newNodes present (b # bs) =
     (if \<exists>r \<in> set present. Equal b r then newNodes present bs
      else b # newNodes (present @ [b]) bs)"

fun firstOccurrences :: "property list \<Rightarrow> property list \<Rightarrow> property list" where
  "firstOccurrences seen [] = []"
| "firstOccurrences seen (b # bs) =
     (if \<exists>s \<in> set seen. Equal b s then firstOccurrences (seen @ [b]) bs
      else b # firstOccurrences (seen @ [b]) bs)"

text \<open>No two nodes of a list are \<^verbatim>\<open>Equal\<close>.\<close>

fun noEqualPair :: "property list \<Rightarrow> bool" where
  "noEqualPair [] = True"
| "noEqualPair (x # xs) = ((\<forall>y \<in> set xs. \<not> Equal x y) \<and> noEqualPair xs)"

lemma isUnique_iff: "isUnique elem ret \<longleftrightarrow> (\<forall>r \<in> set ret. \<not> Equal elem r)"
  by (induction ret) auto

lemma nestLoop_newNodes: "nestLoop ret bs = ret @ newNodes ret bs"
  by (induction bs arbitrary: ret) (auto simp: isUnique_iff)

lemma subseq_newNodes: "subseq (newNodes present bs) bs"
  by (induction bs arbitrary: present) auto

lemma noEqualPair_snoc:
  "noEqualPair (xs @ [b]) \<longleftrightarrow> noEqualPair xs \<and> (\<forall>r \<in> set xs. \<not> Equal r b)"
  by (induction xs) auto

lemma noEqualPair_nestLoop: "noEqualPair ret \<Longrightarrow> noEqualPair (nestLoop ret bs)"
proof (induction bs arbitrary: ret)
  case Nil
  then show ?case by simp
next
  case (Cons b bs)
  show ?case
  proof (cases "isUnique b ret")
    case True
    then have "\<forall>r \<in> set ret. \<not> Equal r b"
      using Equal_sym by (auto simp: isUnique_iff)
    with Cons.prems have "noEqualPair (ret @ [b])" by (simp add: noEqualPair_snoc)
    with True show ?thesis by (simp add: Cons.IH)
  next
    case False
    with Cons show ?thesis by simp
  qed
qed

lemma nestLoop_covered:
  "\<forall>b \<in> set bs. \<exists>r \<in> set ret. Equal b r \<Longrightarrow> nestLoop ret bs = ret"
  by (induction bs) (auto simp: isUnique_iff)

lemma nestLoop_covers: "b \<in> set bs \<Longrightarrow> \<exists>r \<in> set (nestLoop ret bs). Equal b r"
proof (induction bs arbitrary: ret)
  case Nil
  then show ?case by simp
next
  case (Cons x xs)
  let ?ret = "if isUnique x ret then ret @ [x] else ret"
  have step: "nestLoop ret (x # xs) = ?ret @ newNodes ?ret xs"
    by (subst nestLoop.simps) (rule nestLoop_newNodes)
  show ?case
  proof (cases "b = x")
    case True
    have "\<exists>r \<in> set ?ret. Equal x r"
      using Equal_refl by (auto simp: isUnique_iff)
    with True step show ?thesis by auto
  next
    case False
    with Cons.prems have "b \<in> set xs" by simp
    then show ?thesis using Cons.IH [of ?ret] by simp
  qed
qed

lemma newNodes_firstOccurrences:
  "set present \<subseteq> set seen \<Longrightarrow> \<forall>s \<in> set seen. \<exists>r \<in> set present. Equal s r \<Longrightarrow>
   newNodes present bs = firstOccurrences seen bs"
proof (induction bs arbitrary: present seen)
  case Nil
  then show ?case by simp
next
  case (Cons b bs)
  have iff: "(\<exists>r \<in> set present. Equal b r) \<longleftrightarrow> (\<exists>s \<in> set seen. Equal b s)"
    using Cons.prems Equal_trans by blast
  show ?case
  proof (cases "\<exists>r \<in> set present. Equal b r")
    case True
    then obtain r where r: "r \<in> set present" "Equal b r" by blast
    have "set present \<subseteq> set (seen @ [b])" using Cons.prems(1) by auto
    moreover have "\<forall>s \<in> set (seen @ [b]). \<exists>r \<in> set present. Equal s r"
      using Cons.prems(2) r by auto
    ultimately have "newNodes present bs = firstOccurrences (seen @ [b]) bs"
      by (rule Cons.IH)
    with True iff show ?thesis by simp
  next
    case False
    have "set (present @ [b]) \<subseteq> set (seen @ [b])" using Cons.prems(1) by auto
    moreover have "\<forall>s \<in> set (seen @ [b]). \<exists>r \<in> set (present @ [b]). Equal s r"
      using Cons.prems(2) Equal_refl by auto
    ultimately have "newNodes (present @ [b]) bs = firstOccurrences (seen @ [b]) bs"
      by (rule Cons.IH)
    with False iff show ?thesis by simp
  qed
qed

lemma nestUnique_idem: "nestUnique (nestUnique a b) b = nestUnique a b"
  unfolding nestUnique_def using nestLoop_covers [of _ b a]
  by (simp add: nestLoop_covered)

definition structA :: propertyStruct where
  "structA = \<lparr>ps_Name = ''A'', ps_Text = [], ps_Properties = [leafA]\<rparr>"

definition structAA :: propertyStruct where
  "structAA = \<lparr>ps_Name = ''A'', ps_Text = [], ps_Properties = [leafA, leafA]\<rparr>"

definition structB :: propertyStruct where
  "structB = \<lparr>ps_Name = ''B'', ps_Text = [],
     ps_Properties = [leafB, SetAnonymous leafA, leafX, SetAnonymous leafB]\<rparr>"

definition structEmpty :: propertyStruct where
  "structEmpty = \<lparr>ps_Name = ''E'', ps_Text = [], ps_Properties = []\<rparr>"

text \<open>
  C2, as stated: after \<^verbatim>\<open>A.Nest(B)\<close> the result never contains two \<^verbatim>\<open>Equal\<close> nodes. \<^verbatim>\<open>nestUnique\<close>
  copies \<^verbatim>\<open>src\<close> as it is and only tests the nodes of \<^verbatim>\<open>target\<close>: two \<^verbatim>\<open>Equal\<close> nodes of \<^verbatim>\<open>A\<close>
  stay.
\<close>

theorem Nest_duplicates_counterexample:
  "\<not> noEqualPair (ps_Properties (Nest structAA structEmpty))"
  by (simp add: Nest_def nestUnique_def structAA_def structEmpty_def Equal_refl)

text \<open>
  C2, amended: after \<^verbatim>\<open>A.Nest(B)\<close>, \<^verbatim>\<open>A.Properties\<close> consists of the original nodes of \<^verbatim>\<open>A\<close>,
  unchanged and in their order, followed by exactly those nodes of \<^verbatim>\<open>B.Properties\<close> that
  are not \<^verbatim>\<open>Equal\<close> to any node already present (any node of the result so far or, which is
  the same, any node of \<^verbatim>\<open>A\<close> or earlier node of \<^verbatim>\<open>B\<close>), in the order of \<^verbatim>\<open>B\<close>; every node of \<^verbatim>\<open>B\<close> is
  \<^verbatim>\<open>Equal\<close> to a node of the result; if no two nodes of \<^verbatim>\<open>A.Properties\<close> were \<^verbatim>\<open>Equal\<close> before,
  no two nodes of the result are; and nesting the same \<^verbatim>\<open>B\<close> a second time changes nothing.
\<close>

theorem Nest_merge:
  "ps_Properties (Nest A B) = ps_Properties A @ newNodes (ps_Properties A) (ps_Properties B) \<and>
   newNodes (ps_Properties A) (ps_Properties B) =
     firstOccurrences (ps_Properties A) (ps_Properties B) \<and>
   subseq (newNodes (ps_Properties A) (ps_Properties B)) (ps_Properties B) \<and>
   (\<forall>b \<in> set (ps_Properties B). \<exists>r \<in> set (ps_Properties (Nest A B)). Equal b r) \<and>
   (noEqualPair (ps_Properties A) \<longrightarrow> noEqualPair (ps_Properties (Nest A B))) \<and>
   Nest (Nest A B) B = Nest A B"
proof -
  have "ps_Properties (Nest A B) = ps_Properties A @ newNodes (ps_Properties A) (ps_Properties B)"
    by (simp add: Nest_def nestUnique_def nestLoop_newNodes)
  moreover have "newNodes (ps_Properties A) (ps_Properties B) =
      firstOccurrences (ps_Properties A) (ps_Properties B)"
    using Equal_refl by (intro newNodes_firstOccurrences) auto
  moreover have "subseq (newNodes (ps_Properties A) (ps_Properties B)) (ps_Properties B)"
    by (rule subseq_newNodes)
  moreover have "\<forall>b \<in> set (ps_Properties B). \<exists>r \<in> set (ps_Properties (Nest A B)). Equal b r"
    using nestLoop_covers [of _ "ps_Properties B" "ps_Properties A"]
    by (simp add: Nest_def nestUnique_def)
  moreover have "noEqualPair (ps_Properties A) \<longrightarrow> noEqualPair (ps_Properties (Nest A B))"
    by (simp add: Nest_def nestUnique_def noEqualPair_nestLoop)
  moreover have "Nest (Nest A B) B = Nest A B"
    by (simp add: Nest_def nestUnique_idem)
  ultimately show ?thesis by blast
qed

theorem Nest_merge_witness:
  "noEqualPair (ps_Properties structA) \<and>
   ps_Properties (Nest structA structB) = [leafA, leafB, leafX] \<and>
   noEqualPair (ps_Properties (Nest structA structB)) \<and>
   Nest (Nest structA structB) structB = Nest structA structB"
proof -
  have ne: "noEqualPair (ps_Properties structA)"
    by (simp add: structA_def)
  have new: "newNodes (ps_Properties structA) (ps_Properties structB) = [leafB, leafX]"
    by (simp add: structA_def structB_def Equal_iff leafA_def leafB_def leafX_def)
  have m: "ps_Properties (Nest structA structB) =
             ps_Properties structA @ newNodes (ps_Properties structA) (ps_Properties structB)"
    and n: "noEqualPair (ps_Properties (Nest structA structB))"
    and i: "Nest (Nest structA structB) structB = Nest structA structB"
    using Nest_merge [of structA structB] ne by blast+
  have "ps_Properties (Nest structA structB) = [leafA, leafB, leafX]"
    unfolding m new by (simp add: structA_def)
  with ne n i show ?thesis by blast
qed

section \<open>Properties of GetByName\<close>



















section \<open>Properties of formatText\<close>

text \<open>
  C8: \<^verbatim>\<open>formatText("")\<close> is one escaped empty line and its line break, with no \<^verbatim>\<open><pre>\<close>
  marker; \<^verbatim>\<open>formatText("a\n  b\nc")\<close> is, in this order, the escaped \<^verbatim>\<open>a\<close>, the marker that opens
  a preformatted block, the escaped \<^verbatim>\<open>  b\<close>, the marker that closes the block and the escaped
  \<^verbatim>\<open>c\<close>, each line followed by a line break: the block opens at the indented line and closes
  at the next line that is neither indented nor empty.
\<close>

theorem formatText_examples:
  "formatText [] = HTMLEscapeString [] @ [nl] \<and>
   formatText [] = [nl] \<and>
   formatText (''a'' @ [nl] @ ''  b'' @ [nl] @ ''c'') =
     HTMLEscapeString ''a'' @ [nl] @ (''<pre>'' @ [nl, nl]) @
     HTMLEscapeString ''  b'' @ [nl] @ (''</pre>'' @ [nl]) @
     HTMLEscapeString ''c'' @ [nl] \<and>
   formatText (''a'' @ [nl] @ ''  b'' @ [nl] @ ''c'') =
     ''a'' @ [nl] @ ''<pre>'' @ [nl, nl] @ ''  b'' @ [nl] @ ''</pre>'' @ [nl] @ ''c'' @ [nl]"
proof -
  have empty: "formatText [] = [nl]"
    by (simp add: formatText_def HTMLEscapeString_def RuneError_def IsSpace_def)
  have esc: "HTMLEscapeString [] = []" "HTMLEscapeString ''a'' = ''a''"
    "HTMLEscapeString ''  b'' = ''  b''" "HTMLEscapeString ''c'' = ''c''"
    by (simp_all add: HTMLEscapeString_def escapeByte_def)
  have three: "formatText (''a'' @ [nl] @ ''  b'' @ [nl] @ ''c'') =
     ''a'' @ [nl] @ ''<pre>'' @ [nl, nl] @ ''  b'' @ [nl] @ ''</pre>'' @ [nl] @ ''c'' @ [nl]"
    by (simp add: formatText_def HTMLEscapeString_def escapeByte_def RuneError_def IsSpace_def)
  show ?thesis
    unfolding esc using empty three by simp
qed

section \<open>Properties of getType\<close>

text \<open>
  The expression that the type switch of \<^verbatim>\<open>getType\<close> looks at, and the shapes that fall to
  its \<^verbatim>\<open>default\<close> case.
\<close>

fun unstar :: "expr \<Rightarrow> expr" where
  "unstar (StarExpr x) = x"
| "unstar e = e"

fun unrecognized :: "expr \<Rightarrow> bool" where
  "unrecognized (ArrayType _) = False"
| "unrecognized InterfaceType = False"
| "unrecognized (Ident _) = False"
| "unrecognized (StructType _) = False"
| "unrecognized (IndexExpr _ _) = False"
| "unrecognized _ = True"

lemma getType_unstar: "getType E e = typeSwitch E e (unstar e)"
  by (cases e) simp_all

lemma typeSwitch_unrecognized: "unrecognized t \<Longrightarrow> typeSwitch E e t = Inr (goTypeName e, [])"
  by (cases t) simp_all

lemma fieldProperties_error:
  "isl (getType E (FieldType f)) \<Longrightarrow> names \<noteq> [] \<Longrightarrow> isl (fieldProperties E f names)"
  by (cases f; cases names) (auto split: option.splits sum.splits simp: Let_def)

lemma structProperties_error:
  "f \<in> set flds \<Longrightarrow> fieldNames f \<noteq> [] \<Longrightarrow> isl (getType E (FieldType f)) \<Longrightarrow>
   isl (structProperties E flds)"
proof (induction flds)
  case Nil
  then show ?case by simp
next
  case (Cons g flds)
  show ?case
  proof (cases "f = g")
    case True
    with Cons.prems fieldProperties_error [of E g "fieldNames g"]
    show ?thesis by (auto split: sum.splits)
  next
    case False
    with Cons show ?thesis by (auto split: sum.splits)
  qed
qed

text \<open>
  Stand-ins for the three functions of the environment, to run examples: the first letter
  of a field name in lower case, a raw string literal without its back quotes, and a dump
  that names the node.
\<close>

definition lowerFirst :: "string \<Rightarrow> string" where
  "lowerFirst s =
     (case s of
        [] \<Rightarrow> []
      | c # cs \<Rightarrow>
          (case map_of (zip ''ABCDEFGHIJKLMNOPQRSTUVWXYZ'' ''abcdefghijklmnopqrstuvwxyz'') c of
             None \<Rightarrow> c
           | Some l \<Rightarrow> l) # cs)"

definition rawLiteral :: "string \<Rightarrow> string option" where
  "rawLiteral s =
     (if 2 \<le> length s \<and> hd s = CHR 0x60 \<and> last s = CHR 0x60 \<and>
         CHR 0x60 \<notin> set (butlast (tl s)) \<and> CHR 0x0D \<notin> set s
      then Some (butlast (tl s)) else None)"

definition exampleEnv :: env where
  "exampleEnv = \<lparr>PropertyNameForField = lowerFirst, Unquote = rawLiteral,
     Fprint = (\<lambda>e. Some (''dump of '' @ goTypeName e))\<rparr>"

definition mapOfStrings :: expr where
  "mapOfStrings = MapType (Ident ''string'') (Ident ''string'')"

definition genericFoo :: expr where
  "genericFoo = StarExpr (IndexExpr (Ident ''Foo'') (Ident ''T''))"

definition declWithMap :: expr where
  "declWithMap = StructType [Field [Some ''Env''] mapOfStrings None None]"

definition declWithGeneric :: expr where
  "declWithGeneric = StructType
     [Field [Some ''Name''] (Ident ''string'') None None,
      Field [Some ''Foo''] genericFoo None None]"

text \<open>
  C1, as stated: every type expression outside the recognized shapes makes type resolution
  fail with an unknown-type error. The \<^verbatim>\<open>default\<close> case of the type switch returns the Go
  type of the node as the descriptor, and no error: a field of a map type is resolved, and
  the struct that holds it is built.
\<close>

theorem getType_default_counterexample:
  "getType exampleEnv mapOfStrings = Inr (''*ast.MapType'', []) \<and>
   newPropertyStruct exampleEnv ''S'' [] declWithMap =
     Inr \<lparr>ps_Name = ''S'', ps_Text = [],
          ps_Properties = [Property ''env'' [] ''*ast.MapType'' [] [nl] [] [] [] False]\<rparr>"
  by (simp add: exampleEnv_def mapOfStrings_def declWithMap_def fieldNames_def lowerFirst_def
      formatText_def HTMLEscapeString_def RuneError_def IsSpace_def)

text \<open>
  C1, amended: a generic instantiation (after one star is stripped) whose base is not the
  \<^verbatim>\<open>Configurable\<close> marker makes type resolution fail with an unknown-type error that carries
  the dump of the whole expression (with the error of the dump when the dump fails); the
  error of a field that has a name aborts \<^verbatim>\<open>structProperties\<close> and \<^verbatim>\<open>newPropertyStruct\<close>. Every
  other expression outside the recognized shapes is resolved without an error: its
  descriptor is the Go type of the expression node, and it has no nested properties.
\<close>

theorem getType_unrecognized:
  "(unstar e = IndexExpr x index \<and> \<not> isConfigurableAst x \<longrightarrow>
      getType E e =
        (case Fprint E e of None \<Rightarrow> Inl FprintFailed | Some dump \<Rightarrow> Inl (UnknownType dump))) \<and>
   (f \<in> set flds \<and> fieldNames f \<noteq> [] \<and> isl (getType E (FieldType f)) \<longrightarrow>
      isl (structProperties E flds) \<and> isl (newPropertyStruct E name doc (StructType flds))) \<and>
   (unrecognized (unstar e) \<longrightarrow> getType E e = Inr (goTypeName e, []))"
proof (intro conjI impI)
  assume "unstar e = IndexExpr x index \<and> \<not> isConfigurableAst x"
  then show "getType E e =
      (case Fprint E e of None \<Rightarrow> Inl FprintFailed | Some dump \<Rightarrow> Inl (UnknownType dump))"
    by (simp add: getType_unstar)
next
  assume a: "f \<in> set flds \<and> fieldNames f \<noteq> [] \<and> isl (getType E (FieldType f))"
  then show s: "isl (structProperties E flds)"
    using structProperties_error [of f flds E] by simp
  then show "isl (newPropertyStruct E name doc (StructType flds))"
    by (auto split: sum.splits)
next
  assume "unrecognized (unstar e)"
  then show "getType E e = Inr (goTypeName e, [])"
    by (simp add: getType_unstar typeSwitch_unrecognized)
qed

theorem getType_unrecognized_witness:
  "getType exampleEnv genericFoo = Inl (UnknownType ''dump of *ast.StarExpr'') \<and>
   isl (newPropertyStruct exampleEnv ''S'' [] declWithGeneric) \<and>
   getType exampleEnv (StarExpr (SelectorExpr (Ident ''pkg'') ''T'')) =
     Inr (''*ast.StarExpr'', [])"
proof -
  let ?f = "Field [Some ''Foo''] genericFoo None None"
  let ?flds = "[Field [Some ''Name''] (Ident ''string'') None None, ?f]"
  let ?sel = "StarExpr (SelectorExpr (Ident ''pkg'') ''T'')"
  have u: "unstar genericFoo = IndexExpr (Ident ''Foo'') (Ident ''T'') \<and>
      \<not> isConfigurableAst (Ident ''Foo'')"
    by (simp add: genericFoo_def)
  have 1: "getType exampleEnv genericFoo = Inl (UnknownType ''dump of *ast.StarExpr'')"
    using getType_unrecognized [of genericFoo "Ident ''Foo''" "Ident ''T''" exampleEnv] u
    by (simp add: exampleEnv_def genericFoo_def)
  have h: "?f \<in> set ?flds \<and> fieldNames ?f \<noteq> [] \<and> isl (getType exampleEnv (FieldType ?f))"
    using 1 by (simp add: fieldNames_def)
  have 2: "isl (newPropertyStruct exampleEnv ''S'' [] declWithGeneric)"
    using getType_unrecognized [of _ _ _ exampleEnv ?f ?flds "''S''" "[]"] h
    unfolding declWithGeneric_def by blast
  have r: "unrecognized (unstar ?sel)" by simp
  have 3: "getType exampleEnv ?sel = Inr (''*ast.StarExpr'', [])"
    using getType_unrecognized [of ?sel _ _ exampleEnv] r by simp
  from 1 2 3 show ?thesis by blast
qed

section \<open>Clone and the backing arrays of slices\<close>

text \<open>
  Whether a copy shares storage with its original cannot be read from lists of values:
  \<^verbatim>\<open>Clone\<close> is modelled on the store. Copying a struct copies its slice headers, not the
  arrays.
\<close>

text \<open>
  \<^verbatim>\<open>slices.Clone\<close> on a slice of properties: a new array with the elements of the old one,
  copied by assignment; a slice without elements is returned as it is.
\<close>

definition slicesClone :: "store \<Rightarrow> slice \<Rightarrow> store \<times> slice" where
  "slicesClone h s =
     (if slLen s = 0 then (h, s)
      else (h\<lparr>propertyArrays :=
                (propertyArrays h)(nextAddr h := take (slLen s) (propertyArrays h (slBase s))),
              nextAddr := Suc (nextAddr h)\<rparr>,
            \<lparr>slBase = nextAddr h, slLen = slLen s\<rparr>))"

text \<open>
  \<^verbatim>\<open>Property.Clone\<close>: \<^verbatim>\<open>ret := *p\<close> copies the struct, \<^verbatim>\<open>Properties\<close> gets a new array, and the
  loop, \<open>cloneLoop\<close> from index \<open>i\<close> on, replaces each element of the new array by its own
  clone. The recursion follows the slices of the store and need not end on a store in
  which a slice holds itself: the first argument bounds its depth, and \<open>None\<close> is a call
  that did not return within the bound.
\<close>

function Clone_Property :: "nat \<Rightarrow> store \<Rightarrow> hproperty \<Rightarrow> (store \<times> hproperty) option"
  and cloneLoop :: "nat \<Rightarrow> store \<Rightarrow> slice \<Rightarrow> nat \<Rightarrow> store option"
where
  "Clone_Property 0 h p = None"
| "Clone_Property (Suc depth) h p =
     (case slicesClone h (hProperties p) of
        (h1, s) \<Rightarrow>
          (case cloneLoop depth h1 s 0 of
             None \<Rightarrow> None
           | Some h2 \<Rightarrow> Some (h2, p\<lparr>hProperties := s\<rparr>)))"
| "cloneLoop depth h s i =
     (if i < slLen s
      then (case Clone_Property depth h (propertyArrays h (slBase s) ! i) of
              None \<Rightarrow> None
            | Some (h', c) \<Rightarrow> cloneLoop depth (setProperty h' s i c) s (Suc i))
      else Some h)"
  by pat_completeness auto
termination
  by (relation "measures
        [\<lambda>x. case x of Inl (depth, h, p) \<Rightarrow> 2 * depth | Inr (depth, h, s, i) \<Rightarrow> 2 * depth + 1,
         \<lambda>x. case x of Inl _ \<Rightarrow> 0 | Inr (depth, h, s, i) \<Rightarrow> slLen s - i]")
    auto

text \<open>\<^verbatim>\<open>PropertyStruct.Clone\<close>, in the same way; the result stands for the new struct.\<close>

definition Clone_PropertyStruct ::
  "nat \<Rightarrow> store \<Rightarrow> hpropertyStruct \<Rightarrow> (store \<times> hpropertyStruct) option" where
  "Clone_PropertyStruct depth h ps =
     (case slicesClone h (hsProperties ps) of
        (h1, s) \<Rightarrow>
          (case cloneLoop depth h1 s 0 of
             None \<Rightarrow> None
           | Some h2 \<Rightarrow> Some (h2, ps\<lparr>hsProperties := s\<rparr>)))"

text \<open>
  The tree of values that a struct of the store stands for: every slice read through the
  store, to the same bound on the depth.
\<close>

definition readStrings :: "store \<Rightarrow> slice \<Rightarrow> string list" where
  "readStrings h s = take (slLen s) (stringArrays h (slBase s))"

fun readProperty :: "nat \<Rightarrow> store \<Rightarrow> hproperty \<Rightarrow> property option" where
  "readProperty 0 h p = None"
| "readProperty (Suc depth) h p =
     (case those (map (readProperty depth h)
                   (take (slLen (hProperties p)) (propertyArrays h (slBase (hProperties p))))) of
        None \<Rightarrow> None
      | Some ps \<Rightarrow>
          Some (Property (hName p) (readStrings h (hOtherNames p)) (hType p) (hTag p) (hText p)
                  (readStrings h (hOtherTexts p)) ps (hDefault p) (hAnonymous p)))"

definition readStruct :: "nat \<Rightarrow> store \<Rightarrow> hpropertyStruct \<Rightarrow> propertyStruct option" where
  "readStruct depth h ps =
     (case those (map (readProperty depth h)
                   (take (slLen (hsProperties ps)) (propertyArrays h (slBase (hsProperties ps))))) of
        None \<Rightarrow> None
      | Some props \<Rightarrow> Some \<lparr>ps_Name = hsName ps, ps_Text = hsText ps, ps_Properties = props\<rparr>)"

text \<open>The assignment \<^verbatim>\<open>s[i] = v\<close> to an element of a slice of strings.\<close>

definition setString :: "store \<Rightarrow> slice \<Rightarrow> nat \<Rightarrow> string \<Rightarrow> store" where
  "setString h s i v =
     h\<lparr>stringArrays := (stringArrays h)(slBase s := (stringArrays h (slBase s))[i := v])\<rparr>"

text \<open>
  A store with one struct: a single property \<^verbatim>\<open>a\<close> whose \<^verbatim>\<open>OtherNames\<close> is the one-element
  slice at address 1, and whose array of properties is at address 2.
\<close>

definition storedLeaf :: hproperty where
  "storedLeaf = \<lparr>hName = ''a'', hOtherNames = \<lparr>slBase = 1, slLen = 1\<rparr>, hType = ''string'',
     hTag = [], hText = [], hOtherTexts = \<lparr>slBase = 0, slLen = 0\<rparr>,
     hProperties = \<lparr>slBase = 0, slLen = 0\<rparr>, hDefault = [], hAnonymous = False\<rparr>"

definition store0 :: store where
  "store0 = \<lparr>stringArrays = (\<lambda>_. [])(1 := [''alias'']),
     propertyArrays = (\<lambda>_. [])(2 := [storedLeaf]), nextAddr = 3\<rparr>"

definition stored :: hpropertyStruct where
  "stored = \<lparr>hsName = ''T'', hsText = [], hsProperties = \<lparr>slBase = 2, slLen = 1\<rparr>\<rparr>"

definition treeBefore :: propertyStruct where
  "treeBefore = \<lparr>ps_Name = ''T'', ps_Text = [],
     ps_Properties = [Property ''a'' [''alias''] ''string'' [] [] [] [] [] False]\<rparr>"

definition treeAfter :: propertyStruct where
  "treeAfter = \<lparr>ps_Name = ''T'', ps_Text = [],
     ps_Properties = [Property ''a'' [''changed''] ''string'' [] [] [] [] [] False]\<rparr>"

declare cloneLoop.simps [simp del]

text \<open>The store after \<^verbatim>\<open>stored.Clone()\<close>, and the clone: its array of properties is the new one at address 3.\<close>

definition storeCloned :: store where
  "storeCloned = \<lparr>stringArrays = (\<lambda>_. [])(1 := [''alias'']),
     propertyArrays = (\<lambda>_. [])(2 := [storedLeaf], 3 := [storedLeaf]), nextAddr = 4\<rparr>"

definition storedClone :: hpropertyStruct where
  "storedClone = \<lparr>hsName = ''T'', hsText = [], hsProperties = \<lparr>slBase = 3, slLen = 1\<rparr>\<rparr>"

text \<open>
  C3 says that no change made through the clone reaches the original, the \<^verbatim>\<open>OtherNames\<close> and
  \<^verbatim>\<open>OtherTexts\<close> of nested properties included. \<^verbatim>\<open>Clone\<close> gives \<^verbatim>\<open>Properties\<close> a new array at every
  depth, but \<^verbatim>\<open>ret := *p\<close> copies the headers of \<^verbatim>\<open>OtherNames\<close> and \<^verbatim>\<open>OtherTexts\<close> and nothing
  replaces them: original and clone read the same tree after the call, an assignment to
  \<^verbatim>\<open>clone.Properties[0].Default\<close> leaves the original as it was, and the assignment
  \<^verbatim>\<open>clone.Properties[0].OtherNames[0] = "changed"\<close> changes the original.
\<close>

theorem Clone_shares_OtherNames:
  "Clone_PropertyStruct 2 store0 stored = Some (storeCloned, storedClone) \<and>
   readStruct 2 storeCloned stored = Some treeBefore \<and>
   readStruct 2 storeCloned storedClone = Some treeBefore \<and>
   readStruct 2
     (setProperty storeCloned (hsProperties storedClone) 0
        ((propertyArrays storeCloned (slBase (hsProperties storedClone)) ! 0)\<lparr>hDefault := ''x''\<rparr>))
     stored = Some treeBefore \<and>
   readStruct 2
     (setString storeCloned
        (hOtherNames (propertyArrays storeCloned (slBase (hsProperties storedClone)) ! 0)) 0
        ''changed'')
     stored = Some treeAfter \<and>
   treeAfter \<noteq> treeBefore"
proof -
  have "Clone_PropertyStruct 2 store0 stored = Some (storeCloned, storedClone)"
    by (simp add: Clone_PropertyStruct_def slicesClone_def store0_def stored_def storedLeaf_def
        cloneLoop.simps setProperty_def numeral_2_eq_2 storeCloned_def storedClone_def)
  moreover have "readStruct 2 storeCloned stored = Some treeBefore"
    by (simp add: readStruct_def readStrings_def storeCloned_def stored_def storedLeaf_def
        treeBefore_def numeral_2_eq_2)
  moreover have "readStruct 2 storeCloned storedClone = Some treeBefore"
    by (simp add: readStruct_def readStrings_def storeCloned_def storedClone_def storedLeaf_def
        treeBefore_def numeral_2_eq_2)
  moreover have "readStruct 2
     (setProperty storeCloned (hsProperties storedClone) 0
        ((propertyArrays storeCloned (slBase (hsProperties storedClone)) ! 0)\<lparr>hDefault := ''x''\<rparr>))
     stored = Some treeBefore"
    by (simp add: readStruct_def readStrings_def storeCloned_def storedClone_def stored_def
        storedLeaf_def treeBefore_def setProperty_def numeral_2_eq_2)
  moreover have "readStruct 2
     (setString storeCloned
        (hOtherNames (propertyArrays storeCloned (slBase (hsProperties storedClone)) ! 0)) 0
        ''changed'')
     stored = Some treeAfter"
    by (simp add: readStruct_def readStrings_def storeCloned_def storedClone_def stored_def
        storedLeaf_def treeAfter_def setString_def numeral_2_eq_2)
  moreover have "treeAfter \<noteq> treeBefore"
    by (simp add: treeAfter_def treeBefore_def)
  ultimately show ?thesis by blast
qed

section \<open>Properties of the tag filter\<close>

text \<open>The nodes of a slice down to a depth, each parent before its children.\<close>

fun nodesUpTo :: "nat \<Rightarrow> store \<Rightarrow> slice \<Rightarrow> hproperty list" where
  "nodesUpTo 0 h s = []"
| "nodesUpTo (Suc d) h s = concat (map (\<lambda>x. x # nodesUpTo d h (hProperties x)) (elems h s))"

text \<open>Every node of a slice, at all depths, satisfies \<open>P\<close>.\<close>

definition everyNode :: "(hproperty \<Rightarrow> bool) \<Rightarrow> store \<Rightarrow> slice \<Rightarrow> bool" where
  "everyNode P h s = (\<forall>d. \<forall>x \<in> set (nodesUpTo d h s). P x)"

lemma everyNode_elems: "everyNode P h s \<Longrightarrow> x \<in> set (elems h s) \<Longrightarrow> P x"
  unfolding everyNode_def by (drule spec [of _ "Suc 0"]) auto

lemma everyNode_child:
  assumes "everyNode P h s" and "x \<in> set (elems h s)"
  shows "everyNode P h (hProperties x)"
  unfolding everyNode_def
proof (intro allI ballI)
  fix d y
  assume "y \<in> set (nodesUpTo d h (hProperties x))"
  with assms(2) have "y \<in> set (nodesUpTo (Suc d) h s)" by auto
  with assms(1) show "P y" unfolding everyNode_def by blast
qed

lemma everyNode_intro:
  assumes "\<And>x. x \<in> set (elems h s) \<Longrightarrow> P x \<and> everyNode P h (hProperties x)"
  shows "everyNode P h s"
  unfolding everyNode_def
proof (intro allI ballI)
  fix d y
  assume y: "y \<in> set (nodesUpTo d h s)"
  show "P y"
  proof (cases d)
    case 0
    with y show ?thesis by simp
  next
    case (Suc d')
    with y obtain x where x: "x \<in> set (elems h s)"
      and "y = x \<or> y \<in> set (nodesUpTo d' h (hProperties x))" by auto
    with assms [OF x] show ?thesis unfolding everyNode_def by blast
  qed
qed

lemma elems_setProperty:
  "set (elems (setProperty h s j x) u) \<subseteq> insert x (set (elems h u))"
proof (cases "slBase u = slBase s")
  case True
  have "set (take (slLen u) ((propertyArrays h (slBase s))[j := x])) \<subseteq>
      insert x (set (take (slLen u) (propertyArrays h (slBase s))))"
    by (metis set_update_subset_insert take_update_swap)
  with True show ?thesis by (simp add: elems_def setProperty_def)
next
  case False
  then show ?thesis by (auto simp: elems_def setProperty_def)
qed

lemma everyNode_setProperty:
  assumes x: "P x" "everyNode P h (hProperties x)"
  shows "everyNode P h u \<Longrightarrow> everyNode P (setProperty h s j x) u"
proof -
  have "\<forall>u. everyNode P h u \<longrightarrow> (\<forall>y \<in> set (nodesUpTo d (setProperty h s j x) u). P y)" for d
  proof (induction d)
    case 0
    show ?case by simp
  next
    case (Suc d)
    show ?case
    proof (intro allI impI ballI)
      fix u y
      assume u: "everyNode P h u"
        and "y \<in> set (nodesUpTo (Suc d) (setProperty h s j x) u)"
      then obtain z where z: "z \<in> set (elems (setProperty h s j x) u)"
        and y: "y = z \<or> y \<in> set (nodesUpTo d (setProperty h s j x) (hProperties z))"
        by auto
      from z elems_setProperty have "z = x \<or> z \<in> set (elems h u)" by blast
      then have "P z \<and> everyNode P h (hProperties z)"
        using x u everyNode_elems everyNode_child by blast
      with y Suc.IH show "P y" by blast
    qed
  qed
  then show "everyNode P h u \<Longrightarrow> everyNode P (setProperty h s j x) u"
    unfolding everyNode_def by blast
qed


lemma elems_Suc:
  "j < length (propertyArrays h (slBase s)) \<Longrightarrow>
   elems h \<lparr>slBase = slBase s, slLen = Suc j\<rparr> =
     elems h \<lparr>slBase = slBase s, slLen = j\<rparr> @ [propertyArrays h (slBase s) ! j]"
  by (simp add: elems_def take_Suc_conv_app_nth)

lemma everyNode_Suc:
  assumes "j < length (propertyArrays h (slBase s))"
    and "everyNode P h \<lparr>slBase = slBase s, slLen = j\<rparr>"
    and "P (propertyArrays h (slBase s) ! j)"
    and "everyNode P h (hProperties (propertyArrays h (slBase s) ! j))"
  shows "everyNode P h \<lparr>slBase = slBase s, slLen = Suc j\<rparr>"
proof (rule everyNode_intro)
  fix x
  assume "x \<in> set (elems h \<lparr>slBase = slBase s, slLen = Suc j\<rparr>)"
  then have "x \<in> set (elems h \<lparr>slBase = slBase s, slLen = j\<rparr>) \<or>
      x = propertyArrays h (slBase s) ! j"
    using elems_Suc [OF assms(1)] by auto
  then show "P x \<and> everyNode P h (hProperties x)"
    using assms everyNode_elems everyNode_child by blast
qed

lemma length_setProperty:
  "length (propertyArrays (setProperty h s j x) b) = length (propertyArrays h b)"
  by (simp add: setProperty_def)

lemma nth_setProperty:
  "j < length (propertyArrays h (slBase s)) \<Longrightarrow>
   propertyArrays (setProperty h s j x) (slBase s) ! j = x"
  by (simp add: setProperty_def)

lemma filter_everyNode:
  "filterPropsByTag Get depth h props key v exclude = Some (h', s') \<Longrightarrow>
   (\<forall>u. everyNode (\<lambda>x. hasTag Get (hTag x) key v = (\<not> exclude)) h u \<longrightarrow>
         everyNode (\<lambda>x. hasTag Get (hTag x) key v = (\<not> exclude)) h' u) \<and>
   everyNode (\<lambda>x. hasTag Get (hTag x) key v = (\<not> exclude)) h' s' \<and>
   (\<forall>b. length (propertyArrays h' b) = length (propertyArrays h b))"
  "filterLoop Get depth h props i j key v exclude = Some (h', s') \<Longrightarrow> j \<le> i \<Longrightarrow>
   everyNode (\<lambda>x. hasTag Get (hTag x) key v = (\<not> exclude)) h \<lparr>slBase = slBase props, slLen = j\<rparr> \<Longrightarrow>
   (\<forall>u. everyNode (\<lambda>x. hasTag Get (hTag x) key v = (\<not> exclude)) h u \<longrightarrow>
         everyNode (\<lambda>x. hasTag Get (hTag x) key v = (\<not> exclude)) h' u) \<and>
   everyNode (\<lambda>x. hasTag Get (hTag x) key v = (\<not> exclude)) h' s' \<and>
   (\<forall>b. length (propertyArrays h' b) = length (propertyArrays h b))"
proof (induction Get depth h props key v exclude and Get depth h props i j key v exclude
    arbitrary: h' s' and h' s' rule: filterPropsByTag_filterLoop.induct)
  case (1 Get h props key v exclude)
  then show ?case by simp
next
  case (2 Get depth h props key v exclude)
  let ?P = "\<lambda>x. hasTag Get (hTag x) key v = (\<not> exclude)"
  have "everyNode ?P h \<lparr>slBase = slBase props, slLen = 0\<rparr>"
    by (rule everyNode_intro) (simp add: elems_def)
  with "2.IH" [of h' s'] "2.prems" show ?case by simp
next
  case (3 Get depth h props i j key v exclude)
  let ?P = "\<lambda>x. hasTag Get (hTag x) key v = (\<not> exclude)"
  let ?x = "elems h props ! i"
  show ?case
  proof (cases "i < length (elems h props)")
    case False
    with "3.prems" show ?thesis by (simp add: filterLoop.simps)
  next
    case inrange: True
    then have ilen: "i < length (propertyArrays h (slBase props))"
      by (simp add: elems_def)
    show ?thesis
    proof (cases "?P ?x")
      case False
      with inrange "3.prems"(1)
      have run: "filterLoop Get depth h props (Suc i) j key v exclude = Some (h', s')"
        by (simp add: filterLoop.simps Let_def)
      from "3.IH"(3) [OF inrange refl False run] "3.prems"(2,3) show ?thesis by simp
    next
      case kept: True
      with inrange "3.prems"(1) obtain h1 sub where
        nested: "filterPropsByTag Get depth h (hProperties ?x) key v exclude = Some (h1, sub)"
        and run: "filterLoop Get depth (setProperty h1 props j (?x\<lparr>hProperties := sub\<rparr>)) props
            (Suc i) (Suc j) key v exclude = Some (h', s')"
        by (auto simp: filterLoop.simps [of Get depth h props i j] Let_def
            split: option.splits)
      let ?x' = "?x\<lparr>hProperties := sub\<rparr>"
      let ?h2 = "setProperty h1 props j ?x'"
      from "3.IH"(1) [OF inrange refl kept nested]
      have mono1: "\<And>u. everyNode ?P h u \<Longrightarrow> everyNode ?P h1 u"
        and sub: "everyNode ?P h1 sub"
        and len1: "\<And>b. length (propertyArrays h1 b) = length (propertyArrays h b)"
        by blast+
      have px': "?P ?x'" using kept by simp
      have mono2: "\<And>u. everyNode ?P h1 u \<Longrightarrow> everyNode ?P ?h2 u"
        using everyNode_setProperty [of ?P ?x' h1] px' sub by simp
      have jlen: "j < length (propertyArrays ?h2 (slBase props))"
        using ilen "3.prems"(2) len1 by (simp add: length_setProperty)
      have nth: "propertyArrays ?h2 (slBase props) ! j = ?x'"
        using ilen "3.prems"(2) len1 by (simp add: nth_setProperty)
      have "everyNode ?P ?h2 \<lparr>slBase = slBase props, slLen = Suc j\<rparr>"
        using everyNode_Suc [of j ?h2 props ?P] jlen nth px' mono1 mono2 sub "3.prems"(3)
        by simp
      with "3.IH"(2) [OF inrange refl kept nested refl run] "3.prems"(2)
      have "(\<forall>u. everyNode ?P ?h2 u \<longrightarrow> everyNode ?P h' u) \<and> everyNode ?P h' s' \<and>
          (\<forall>b. length (propertyArrays h' b) = length (propertyArrays ?h2 b))"
        by simp
      with mono1 mono2 len1 show ?thesis by (simp add: length_setProperty)
    qed
  qed
qed


lemma filterLoop_none_kept:
  assumes "\<forall>x \<in> set (elems h s). hasTag Get (hTag x) key v = exclude"
  shows "filterLoop Get depth h s i j key v exclude = Some (h, \<lparr>slBase = slBase s, slLen = j\<rparr>)"
proof (induction "length (elems h s) - i" arbitrary: i)
  case 0
  then show ?case by (simp add: filterLoop.simps)
next
  case (Suc n)
  then have i: "i < length (elems h s)" by simp
  then have "hasTag Get (hTag (elems h s ! i)) key v = exclude"
    using assms nth_mem by blast
  moreover have "filterLoop Get depth h s (Suc i) j key v exclude =
      Some (h, \<lparr>slBase = slBase s, slLen = j\<rparr>)"
    using Suc by simp
  ultimately show ?case using i by (simp add: filterLoop.simps [of Get depth h s i] Let_def)
qed

text \<open>
  The arrays of a store are ranked when the array of the children of an element has a lower
  rank than the array of the element: no slice holds itself, at any depth.
\<close>

definition ranked :: "(nat \<Rightarrow> nat) \<Rightarrow> store \<Rightarrow> bool" where
  "ranked r h =
     (\<forall>b. \<forall>x \<in> set (propertyArrays h b).
        0 < slLen (hProperties x) \<longrightarrow> r (slBase (hProperties x)) < r b)"

text \<open>The fields of a node other than \<^verbatim>\<open>Properties\<close>.\<close>

definition ownFields :: "hproperty \<Rightarrow> hproperty" where
  "ownFields x = x\<lparr>hProperties := \<lparr>slBase = 0, slLen = 0\<rparr>\<rparr>"

lemma ranked_setProperty:
  assumes "ranked r h" and "x \<in> set (propertyArrays h (slBase s))"
    and "slBase sub = slBase (hProperties x)" and "slLen sub \<le> slLen (hProperties x)"
  shows "ranked r (setProperty h s j (x\<lparr>hProperties := sub\<rparr>))"
  unfolding ranked_def
proof (intro allI ballI impI)
  fix b y
  assume y: "y \<in> set (propertyArrays (setProperty h s j (x\<lparr>hProperties := sub\<rparr>)) b)"
    and pos: "0 < slLen (hProperties y)"
  have "y = x\<lparr>hProperties := sub\<rparr> \<and> b = slBase s \<or> y \<in> set (propertyArrays h b)"
    using y set_update_subset_insert [of "propertyArrays h (slBase s)" j "x\<lparr>hProperties := sub\<rparr>"]
    by (auto simp: setProperty_def split: if_splits)
  then show "r (slBase (hProperties y)) < r b"
  proof
    assume "y = x\<lparr>hProperties := sub\<rparr> \<and> b = slBase s"
    with pos assms show ?thesis unfolding ranked_def by auto
  next
    assume "y \<in> set (propertyArrays h b)"
    with pos assms(1) show ?thesis unfolding ranked_def by blast
  qed
qed

lemma filterPropsByTag_empty:
  "elems h s = [] \<Longrightarrow>
   filterPropsByTag Get (Suc depth) h s key v exclude = Some (h, \<lparr>slBase = slBase s, slLen = 0\<rparr>)"
  by (simp add: filterLoop.simps)


text \<open>
  What a run of the loop from index \<open>i\<close>, with \<open>j\<close> elements taken so far, leaves on a ranked
  store: the store stays ranked, the header keeps its array and does not grow, no array of
  a higher rank is written, and after the \<open>j\<close> elements come the elements from \<open>i\<close> on that
  satisfy \<open>P\<close>, in their order and with their own fields.
\<close>

definition loopResult ::
  "(nat \<Rightarrow> nat) \<Rightarrow> (hproperty \<Rightarrow> bool) \<Rightarrow> store \<Rightarrow> slice \<Rightarrow> nat \<Rightarrow> nat \<Rightarrow> store \<Rightarrow> slice \<Rightarrow> bool" where
  "loopResult r P h props i j h' s' =
     (ranked r h' \<and> slBase s' = slBase props \<and> slLen s' \<le> slLen props \<and>
      (\<forall>b. r (slBase props) < r b \<longrightarrow> propertyArrays h' b = propertyArrays h b) \<and>
      (\<exists>ks. elems h' s' = take j (propertyArrays h (slBase props)) @ ks \<and>
            map ownFields ks = map ownFields (filter P (drop i (elems h props)))))"

lemma filter_returns:
  "ranked r h \<Longrightarrow> r (slBase props) + 2 \<le> depth \<Longrightarrow>
   \<exists>h' s'. filterPropsByTag Get depth h props key v exclude = Some (h', s') \<and>
     loopResult r (\<lambda>x. hasTag Get (hTag x) key v = (\<not> exclude)) h props 0 0 h' s'"
  "ranked r h \<Longrightarrow> r (slBase props) + 1 \<le> depth \<Longrightarrow> j \<le> i \<Longrightarrow> i \<le> slLen props \<Longrightarrow>
   \<exists>h' s'. filterLoop Get depth h props i j key v exclude = Some (h', s') \<and>
     loopResult r (\<lambda>x. hasTag Get (hTag x) key v = (\<not> exclude)) h props i j h' s'"
proof (induction Get depth h props key v exclude and Get depth h props i j key v exclude
    rule: filterPropsByTag_filterLoop.induct)
  case (1 Get h props key v exclude)
  then show ?case by simp
next
  case (2 Get depth h props key v exclude)
  then show ?case by simp
next
  case (3 Get depth h props i j key v exclude)
  let ?P = "\<lambda>x. hasTag Get (hTag x) key v = (\<not> exclude)"
  let ?b = "slBase props"
  let ?x = "elems h props ! i"
  show ?case
  proof (cases "i < length (elems h props)")
    case False
    then have "drop i (elems h props) = []" by simp
    moreover have "elems h \<lparr>slBase = ?b, slLen = j\<rparr> = take j (propertyArrays h ?b)"
      by (simp add: elems_def)
    ultimately show ?thesis
      using False "3.prems" by (simp add: filterLoop.simps loopResult_def)
  next
    case inrange: True
    then have ilen: "i < length (propertyArrays h ?b)" and isl: "i < slLen props"
      by (simp_all add: elems_def)
    have xi: "?x = propertyArrays h ?b ! i" using inrange by (simp add: elems_def)
    have xin: "?x \<in> set (propertyArrays h ?b)" using ilen xi by simp
    have dropi: "drop i (elems h props) = ?x # drop (Suc i) (elems h props)"
      using inrange by (simp add: Cons_nth_drop_Suc)
    show ?thesis
    proof (cases "?P ?x")
      case False
      from "3.IH"(3) [OF inrange refl False "3.prems"(1,2)] "3.prems"(3) isl
      obtain h' s' where run: "filterLoop Get depth h props (Suc i) j key v exclude = Some (h', s')"
        and res: "loopResult r ?P h props (Suc i) j h' s'"
        by auto
      from res have "loopResult r ?P h props i j h' s'"
        using False unfolding loopResult_def dropi by simp
      with run inrange False show ?thesis
        by (simp add: filterLoop.simps [of Get depth h props i j] Let_def)
    next
      case kept: True
      let ?c = "hProperties ?x"
      have "\<exists>h1 sub. filterPropsByTag Get depth h ?c key v exclude = Some (h1, sub) \<and>
          ranked r h1 \<and> slBase sub = slBase ?c \<and> slLen sub \<le> slLen ?c \<and>
          (\<forall>b. r ?b \<le> r b \<longrightarrow> propertyArrays h1 b = propertyArrays h b)"
      proof (cases "0 < slLen ?c")
        case True
        with xin "3.prems"(1) have lt: "r (slBase ?c) < r ?b"
          unfolding ranked_def by blast
        with "3.prems"(2) have "r (slBase ?c) + 2 \<le> depth" by simp
        from "3.IH"(1) [OF inrange refl kept "3.prems"(1) this] lt
        show ?thesis unfolding loopResult_def by fastforce
      next
        case False
        then have "elems h ?c = []" by (simp add: elems_def)
        moreover from "3.prems"(2) obtain d where "depth = Suc d" by (cases depth) auto
        ultimately have "filterPropsByTag Get depth h ?c key v exclude =
            Some (h, \<lparr>slBase = slBase ?c, slLen = 0\<rparr>)"
          using filterPropsByTag_empty by blast
        with "3.prems"(1) show ?thesis by simp
      qed
      then obtain h1 sub where
        nested: "filterPropsByTag Get depth h ?c key v exclude = Some (h1, sub)"
        and r1: "ranked r h1" and base: "slBase sub = slBase ?c" and len: "slLen sub \<le> slLen ?c"
        and frame1: "\<And>b. r ?b \<le> r b \<Longrightarrow> propertyArrays h1 b = propertyArrays h b"
        by blast
      let ?x' = "?x\<lparr>hProperties := sub\<rparr>"
      let ?h2 = "setProperty h1 props j ?x'"
      have arr1: "propertyArrays h1 ?b = propertyArrays h ?b" by (simp add: frame1)
      have r2: "ranked r ?h2"
        using ranked_setProperty [OF r1 _ base len, of props j] xin arr1 by simp
      have ji: "j < length (propertyArrays h ?b)" using "3.prems"(3) ilen by simp
      from "3.IH"(2) [OF inrange refl kept nested refl r2 "3.prems"(2)] "3.prems"(3) isl
      obtain h' s' where
        run: "filterLoop Get depth ?h2 props (Suc i) (Suc j) key v exclude = Some (h', s')"
        and res: "loopResult r ?P ?h2 props (Suc i) (Suc j) h' s'"
        by auto
      from res obtain ks where
        r': "ranked r h'" and b': "slBase s' = ?b" and l': "slLen s' \<le> slLen props"
        and frame2: "\<And>b. r ?b < r b \<Longrightarrow> propertyArrays h' b = propertyArrays ?h2 b"
        and el: "elems h' s' = take (Suc j) (propertyArrays ?h2 ?b) @ ks"
        and ks: "map ownFields ks = map ownFields (filter ?P (drop (Suc i) (elems ?h2 props)))"
        unfolding loopResult_def by blast
      have arr2: "propertyArrays ?h2 ?b = (propertyArrays h ?b)[j := ?x']"
        by (simp add: setProperty_def arr1)
      have take2: "take (Suc j) (propertyArrays ?h2 ?b) = take j (propertyArrays h ?b) @ [?x']"
        using ji by (simp add: arr2 take_Suc_conv_app_nth)
      have "drop (Suc i) (propertyArrays ?h2 ?b) = drop (Suc i) (propertyArrays h ?b)"
        unfolding arr2 using "3.prems"(3) by simp
      then have drop2: "drop (Suc i) (elems ?h2 props) = drop (Suc i) (elems h props)"
        unfolding elems_def drop_take by simp
      have frame: "\<forall>b. r ?b < r b \<longrightarrow> propertyArrays h' b = propertyArrays h b"
      proof (intro allI impI)
        fix b
        assume lt: "r ?b < r b"
        then have "b \<noteq> ?b" by auto
        then have "propertyArrays ?h2 b = propertyArrays h1 b" by (simp add: setProperty_def)
        with lt frame1 [of b] frame2 [of b] show "propertyArrays h' b = propertyArrays h b"
          by simp
      qed
      have "elems h' s' = take j (propertyArrays h ?b) @ (?x' # ks)"
        using el take2 by simp
      moreover have "map ownFields (?x' # ks) = map ownFields (filter ?P (drop i (elems h props)))"
        using ks kept unfolding dropi drop2 by (simp add: ownFields_def)
      ultimately have "loopResult r ?P h props i j h' s'"
        unfolding loopResult_def using r' b' l' frame by blast
      with run nested inrange kept show ?thesis
        by (simp add: filterLoop.simps [of Get depth h props i j] Let_def)
    qed
  qed
qed



lemma filter_then_opposite:
  assumes "filterPropsByTag Get depth h props key v exclude = Some (h', s')"
  shows "filterPropsByTag Get (Suc depth') h' s' key v (\<not> exclude) =
      Some (h', \<lparr>slBase = slBase s', slLen = 0\<rparr>)"
proof -
  have "everyNode (\<lambda>x. hasTag Get (hTag x) key v = (\<not> exclude)) h' s'"
    using filter_everyNode(1) [OF assms] by blast
  then have "\<forall>x \<in> set (elems h' s'). hasTag Get (hTag x) key v = (\<not> exclude)"
    using everyNode_elems by blast
  then show ?thesis by (simp add: filterLoop_none_kept)
qed

text \<open>
  The tags of the examples, \<^verbatim>\<open>blueprint:"mutated"\<close> and \<^verbatim>\<open>android:"arch_variant"\<close>, and the
  values of \<^verbatim>\<open>reflect.StructTag.Get\<close> on them and on the empty tag.
\<close>

definition tagMutated :: string where
  "tagMutated = ''blueprint:'' @ [CHR 0x22] @ ''mutated'' @ [CHR 0x22]"

definition tagArchVariant :: string where
  "tagArchVariant = ''android:'' @ [CHR 0x22] @ ''arch_variant'' @ [CHR 0x22]"

definition exampleGet :: tagGet where
  "exampleGet tag key =
     (if tag = tagMutated \<and> key = ''blueprint'' then ''mutated''
      else if tag = tagArchVariant \<and> key = ''android'' then ''arch_variant''
      else [])"

lemma hasTag_examples:
  "hasTag exampleGet tagMutated ''blueprint'' ''mutated''"
  "\<not> hasTag exampleGet tagArchVariant ''blueprint'' ''mutated''"
  "\<not> hasTag exampleGet [] ''blueprint'' ''mutated''"
  "\<not> hasTag exampleGet tagMutated ''blueprint'' []"
  "hasTag exampleGet tagArchVariant ''blueprint'' []"
  "hasTag exampleGet [] ''blueprint'' []"
  by (simp_all add: hasTag_def exampleGet_def tagMutated_def tagArchVariant_def)

text \<open>A node of the store with a name, a tag and children, and nothing else.\<close>

definition hnode :: "string \<Rightarrow> string \<Rightarrow> slice \<Rightarrow> hproperty" where
  "hnode name tag children =
     \<lparr>hName = name, hOtherNames = \<lparr>slBase = 0, slLen = 0\<rparr>, hType = [], hTag = tag, hText = [],
      hOtherTexts = \<lparr>slBase = 0, slLen = 0\<rparr>, hProperties = children, hDefault = [],
      hAnonymous = False\<rparr>"

text \<open>
  A tree as \<^verbatim>\<open>Nest\<close> leaves it when one group \<^verbatim>\<open>g\<close> is nested into two properties: the two
  copies of \<^verbatim>\<open>g\<close>, in the arrays 2 and 3, share the array 4 of their children, a node \<^verbatim>\<open>a\<close>
  without a tag and a node \<^verbatim>\<open>m\<close> tagged \<^verbatim>\<open>blueprint:"mutated"\<close>.
\<close>

definition storeShared :: store where
  "storeShared =
     \<lparr>stringArrays = (\<lambda>_. []),
      propertyArrays = (\<lambda>_. [])
        (1 := [hnode ''p1'' tagMutated \<lparr>slBase = 2, slLen = 1\<rparr>,
               hnode ''p2'' tagMutated \<lparr>slBase = 3, slLen = 1\<rparr>],
         2 := [hnode ''g'' tagMutated \<lparr>slBase = 4, slLen = 2\<rparr>],
         3 := [hnode ''g'' tagMutated \<lparr>slBase = 4, slLen = 2\<rparr>],
         4 := [hnode ''a'' [] \<lparr>slBase = 0, slLen = 0\<rparr>,
               hnode ''m'' tagMutated \<lparr>slBase = 0, slLen = 0\<rparr>]),
      nextAddr = 5\<rparr>"

definition structShared :: hpropertyStruct where
  "structShared = \<lparr>hsName = ''S'', hsText = [], hsProperties = \<lparr>slBase = 1, slLen = 2\<rparr>\<rparr>"

definition storeSharedIncluded :: store where
  "storeSharedIncluded =
     \<lparr>stringArrays = (\<lambda>_. []),
      propertyArrays = (\<lambda>_. [])
        (1 := [hnode ''p1'' tagMutated \<lparr>slBase = 2, slLen = 1\<rparr>,
               hnode ''p2'' tagMutated \<lparr>slBase = 3, slLen = 1\<rparr>],
         2 := [hnode ''g'' tagMutated \<lparr>slBase = 4, slLen = 1\<rparr>],
         3 := [hnode ''g'' tagMutated \<lparr>slBase = 4, slLen = 2\<rparr>],
         4 := [hnode ''m'' tagMutated \<lparr>slBase = 0, slLen = 0\<rparr>,
               hnode ''m'' tagMutated \<lparr>slBase = 0, slLen = 0\<rparr>]),
      nextAddr = 5\<rparr>"

lemma IncludeByTag_shared:
  "IncludeByTag exampleGet 4 storeShared structShared ''blueprint'' ''mutated'' =
    Some (storeSharedIncluded, structShared)"
  by (simp add: IncludeByTag_def structShared_def storeShared_def storeSharedIncluded_def
      filterLoop.simps elems_def setProperty_def hnode_def hasTag_examples eval_nat_numeral Let_def
      fun_eq_iff)

lemma nodes_storeSharedIncluded:
  "nodesUpTo 3 storeSharedIncluded (hsProperties structShared) =
     [hnode ''p1'' tagMutated \<lparr>slBase = 2, slLen = 1\<rparr>,
      hnode ''g'' tagMutated \<lparr>slBase = 4, slLen = 1\<rparr>,
      hnode ''m'' tagMutated \<lparr>slBase = 0, slLen = 0\<rparr>,
      hnode ''p2'' tagMutated \<lparr>slBase = 3, slLen = 1\<rparr>,
      hnode ''g'' tagMutated \<lparr>slBase = 4, slLen = 2\<rparr>,
      hnode ''m'' tagMutated \<lparr>slBase = 0, slLen = 0\<rparr>,
      hnode ''m'' tagMutated \<lparr>slBase = 0, slLen = 0\<rparr>]"
  by (simp add: structShared_def storeSharedIncluded_def elems_def hnode_def eval_nat_numeral)

definition rankShared :: "nat \<Rightarrow> nat" where
  "rankShared b = (if b = 1 then 2 else if b = 2 \<or> b = 3 then 1 else 0)"

lemma ranked_storeShared: "ranked rankShared storeShared"
  by (auto simp: ranked_def rankShared_def storeShared_def hnode_def)

text \<open>
  C5. For every store, tree \<open>T\<close>, key and value: when \<^verbatim>\<open>IncludeByTag\<close> returns, every node that
  can be reached from \<open>T\<close>, at every depth, has a tag containing the value under the key, and
  \<^verbatim>\<open>ExcludeByTag\<close> with the same key and value then leaves \<open>T\<close> without any node; when
  \<^verbatim>\<open>ExcludeByTag\<close> returns, every node that can be reached lacks the value under the key, and
  \<^verbatim>\<open>IncludeByTag\<close> then leaves \<open>T\<close> without any node. This holds also where children arrays
  are shared between nodes. Both filters return on every tree whose arrays are ranked,
  given a depth bound above the rank of the top array.
\<close>

theorem FilterByTag_nodes:
  "(IncludeByTag Get depth h T key v = Some (h', T') \<longrightarrow>
      (\<forall>d. \<forall>x \<in> set (nodesUpTo d h' (hsProperties T')). hasTag Get (hTag x) key v) \<and>
      ExcludeByTag Get (Suc n) h' T' key v =
        Some (h', T'\<lparr>hsProperties := \<lparr>slBase = slBase (hsProperties T'), slLen = 0\<rparr>\<rparr>)) \<and>
   (ExcludeByTag Get depth h T key v = Some (h', T') \<longrightarrow>
      (\<forall>d. \<forall>x \<in> set (nodesUpTo d h' (hsProperties T')). \<not> hasTag Get (hTag x) key v) \<and>
      IncludeByTag Get (Suc n) h' T' key v =
        Some (h', T'\<lparr>hsProperties := \<lparr>slBase = slBase (hsProperties T'), slLen = 0\<rparr>\<rparr>)) \<and>
   (ranked r h \<and> r (slBase (hsProperties T)) + 2 \<le> depth \<longrightarrow>
      (\<exists>h1 T1. IncludeByTag Get depth h T key v = Some (h1, T1)) \<and>
      (\<exists>h2 T2. ExcludeByTag Get depth h T key v = Some (h2, T2)))"
proof -
  have inc: "(\<forall>d. \<forall>x \<in> set (nodesUpTo d h' (hsProperties T')). hasTag Get (hTag x) key v) \<and>
      ExcludeByTag Get (Suc n) h' T' key v =
        Some (h', T'\<lparr>hsProperties := \<lparr>slBase = slBase (hsProperties T'), slLen = 0\<rparr>\<rparr>)"
    if a: "IncludeByTag Get depth h T key v = Some (h', T')"
  proof -
    from a obtain s' where f: "filterPropsByTag Get depth h (hsProperties T) key v False = Some (h', s')"
      and t: "T' = T\<lparr>hsProperties := s'\<rparr>"
      by (auto simp: IncludeByTag_def split: option.splits)
    have "everyNode (\<lambda>x. hasTag Get (hTag x) key v = (\<not> False)) h' s'"
      using filter_everyNode(1) [OF f] by blast
    then have "\<forall>d. \<forall>x \<in> set (nodesUpTo d h' s'). hasTag Get (hTag x) key v"
      by (simp add: everyNode_def)
    moreover have "filterPropsByTag Get (Suc n) h' s' key v True =
        Some (h', \<lparr>slBase = slBase s', slLen = 0\<rparr>)"
      using filter_then_opposite [OF f] by simp
    ultimately show ?thesis by (simp add: t ExcludeByTag_def)
  qed
  have exc: "(\<forall>d. \<forall>x \<in> set (nodesUpTo d h' (hsProperties T')). \<not> hasTag Get (hTag x) key v) \<and>
      IncludeByTag Get (Suc n) h' T' key v =
        Some (h', T'\<lparr>hsProperties := \<lparr>slBase = slBase (hsProperties T'), slLen = 0\<rparr>\<rparr>)"
    if a: "ExcludeByTag Get depth h T key v = Some (h', T')"
  proof -
    from a obtain s' where f: "filterPropsByTag Get depth h (hsProperties T) key v True = Some (h', s')"
      and t: "T' = T\<lparr>hsProperties := s'\<rparr>"
      by (auto simp: ExcludeByTag_def split: option.splits)
    have "everyNode (\<lambda>x. hasTag Get (hTag x) key v = (\<not> True)) h' s'"
      using filter_everyNode(1) [OF f] by blast
    then have "\<forall>d. \<forall>x \<in> set (nodesUpTo d h' s'). \<not> hasTag Get (hTag x) key v"
      by (simp add: everyNode_def)
    moreover have "filterPropsByTag Get (Suc n) h' s' key v False =
        Some (h', \<lparr>slBase = slBase s', slLen = 0\<rparr>)"
      using filter_then_opposite [OF f] by simp
    ultimately show ?thesis by (simp add: t IncludeByTag_def)
  qed
  have ret: "(\<exists>h1 T1. IncludeByTag Get depth h T key v = Some (h1, T1)) \<and>
      (\<exists>h2 T2. ExcludeByTag Get depth h T key v = Some (h2, T2))"
    if "ranked r h \<and> r (slBase (hsProperties T)) + 2 \<le> depth"
  proof -
    from that have r: "ranked r h" and d: "r (slBase (hsProperties T)) + 2 \<le> depth" by simp_all
    from filter_returns(1) [OF r d, of Get key v False]
    obtain h1 s1 where "filterPropsByTag Get depth h (hsProperties T) key v False = Some (h1, s1)"
      by blast
    moreover from filter_returns(1) [OF r d, of Get key v True]
    obtain h2 s2 where "filterPropsByTag Get depth h (hsProperties T) key v True = Some (h2, s2)"
      by blast
    ultimately show ?thesis by (simp add: IncludeByTag_def ExcludeByTag_def)
  qed
  from inc exc ret show ?thesis by blast
qed

theorem FilterByTag_nodes_witness:
  "IncludeByTag exampleGet 4 storeShared structShared ''blueprint'' ''mutated'' =
     Some (storeSharedIncluded, structShared) \<and>
   propertyArrays storeSharedIncluded 4 =
     [hnode ''m'' tagMutated \<lparr>slBase = 0, slLen = 0\<rparr>,
      hnode ''m'' tagMutated \<lparr>slBase = 0, slLen = 0\<rparr>] \<and>
   hnode ''g'' tagMutated \<lparr>slBase = 4, slLen = 2\<rparr>
     \<in> set (nodesUpTo 3 storeSharedIncluded (hsProperties structShared)) \<and>
   list_all (\<lambda>x. hasTag exampleGet (hTag x) ''blueprint'' ''mutated'')
     (nodesUpTo 3 storeSharedIncluded (hsProperties structShared)) \<and>
   ExcludeByTag exampleGet 1 storeSharedIncluded structShared ''blueprint'' ''mutated'' =
     Some (storeSharedIncluded, structShared\<lparr>hsProperties := \<lparr>slBase = 1, slLen = 0\<rparr>\<rparr>) \<and>
   ranked rankShared storeShared \<and> rankShared (slBase (hsProperties structShared)) + 2 \<le> 4 \<and>
   (\<exists>h2 T2. ExcludeByTag exampleGet 4 storeShared structShared ''blueprint'' ''mutated'' =
      Some (h2, T2))"
proof -
  note inst = FilterByTag_nodes [of exampleGet 4 storeShared structShared "''blueprint''"
      "''mutated''" storeSharedIncluded structShared 0 rankShared]
  have r: "ranked rankShared storeShared \<and> rankShared (slBase (hsProperties structShared)) + 2 \<le> 4"
    by (simp add: ranked_storeShared rankShared_def structShared_def)
  have "\<forall>x \<in> set (nodesUpTo 3 storeSharedIncluded (hsProperties structShared)).
      hasTag exampleGet (hTag x) ''blueprint'' ''mutated''"
    using inst IncludeByTag_shared by blast
  then have a: "list_all (\<lambda>x. hasTag exampleGet (hTag x) ''blueprint'' ''mutated'')
     (nodesUpTo 3 storeSharedIncluded (hsProperties structShared))"
    by (simp only: list_all_iff)
  have b: "ExcludeByTag exampleGet 1 storeSharedIncluded structShared ''blueprint'' ''mutated'' =
     Some (storeSharedIncluded, structShared\<lparr>hsProperties := \<lparr>slBase = 1, slLen = 0\<rparr>\<rparr>)"
    using inst IncludeByTag_shared by (simp add: structShared_def)
  have c: "\<exists>h2 T2. ExcludeByTag exampleGet 4 storeShared structShared ''blueprint'' ''mutated'' =
      Some (h2, T2)"
    using inst r by blast
  have d: "propertyArrays storeSharedIncluded 4 =
     [hnode ''m'' tagMutated \<lparr>slBase = 0, slLen = 0\<rparr>,
      hnode ''m'' tagMutated \<lparr>slBase = 0, slLen = 0\<rparr>]"
    by (simp add: storeSharedIncluded_def)
  have e: "hnode ''g'' tagMutated \<lparr>slBase = 4, slLen = 2\<rparr>
     \<in> set (nodesUpTo 3 storeSharedIncluded (hsProperties structShared))"
    by (simp add: nodes_storeSharedIncluded)
  from IncludeByTag_shared a b c d e r show ?thesis by blast
qed

















end
